theory Spec2Isabelle
  imports Main "HOL-Library.Word"
begin

section \<open>SQL values\<close>

text \<open>
  The program is the PostgreSQL schema of the file manager: three tables
  (\<open>profiles\<close>, \<open>files\<close>, \<open>share_links\<close>), the row trigger
  \<open>update_storage_usage\<close> on \<open>files\<close>, and PL/pgSQL functions called over RPC.

  A nullable column is an \<open>option\<close> (\<open>None\<close> is NULL); a column declared
  \<open>NOT NULL\<close> or \<open>PRIMARY KEY\<close> is a plain value. A \<open>UUID\<close> is an opaque
  identifier, a \<open>TIMESTAMP WITH TIME ZONE\<close> a number of microseconds.
  \<open>BIGINT\<close> and \<open>INTEGER\<close> arithmetic does not wrap: PostgreSQL raises
  \<open>numeric_value_out_of_range\<close>, which is an error value here.
\<close>

type_synonym uuid = nat
type_synonym timestamptz = int

datatype error =
    NotFound                 \<comment> \<open>RAISE EXCEPTION 'File not found'\<close>
  | NotAuthorized            \<comment> \<open>RAISE EXCEPTION 'Not authorized'\<close>
  | InvalidToken             \<comment> \<open>RAISE EXCEPTION 'Invalid or inactive token'\<close>
  | Expired                  \<comment> \<open>RAISE EXCEPTION 'Token expired'\<close>
  | InvalidPassword          \<comment> \<open>RAISE EXCEPTION 'Invalid password'\<close>
  | LimitReached             \<comment> \<open>RAISE EXCEPTION 'Download limit reached'\<close>
  | FileUnavailable          \<comment> \<open>RAISE EXCEPTION 'File not available'\<close>
  | UniqueViolation          \<comment> \<open>a PRIMARY KEY or UNIQUE constraint rejects the row\<close>
  | NumericValueOutOfRange   \<comment> \<open>bigint out of range, integer out of range\<close>
  | InvalidRowCount          \<comment> \<open>LIMIT or OFFSET must not be negative\<close>
  | NotNullViolation         \<comment> \<open>NULL stored in a NOT NULL column\<close>
  | ForeignKeyViolation      \<comment> \<open>the referenced row does not exist\<close>
  | AmbiguousColumn          \<comment> \<open>column reference is ambiguous (PL/pgSQL variable or column)\<close>

text \<open>Three-valued logic: a condition is TRUE, FALSE or NULL.\<close>

fun sql_and :: "bool option \<Rightarrow> bool option \<Rightarrow> bool option" where
  "sql_and (Some False) _ = Some False"
| "sql_and _ (Some False) = Some False"
| "sql_and (Some True) (Some True) = Some True"
| "sql_and _ _ = None"

fun sql_or :: "bool option \<Rightarrow> bool option \<Rightarrow> bool option" where
  "sql_or (Some True) _ = Some True"
| "sql_or _ (Some True) = Some True"
| "sql_or (Some False) (Some False) = Some False"
| "sql_or _ _ = None"

text \<open>A comparison operator (\<open>=\<close>, \<open><>\<close>, \<open><\<close>, \<open>>=\<close>) is NULL when an operand is.\<close>

fun sql_cmp :: "('a \<Rightarrow> 'a \<Rightarrow> bool) \<Rightarrow> 'a option \<Rightarrow> 'a option \<Rightarrow> bool option" where
  "sql_cmp r (Some x) (Some y) = Some (r x y)"
| "sql_cmp r _ _ = None"

definition sql_eq :: "'a option \<Rightarrow> 'a option \<Rightarrow> bool option" where
  "sql_eq = sql_cmp (\<lambda>x y. x = y)"

definition sql_ne :: "'a option \<Rightarrow> 'a option \<Rightarrow> bool option" where
  "sql_ne = sql_cmp (\<lambda>x y. x \<noteq> y)"

definition sql_lt :: "int option \<Rightarrow> int option \<Rightarrow> bool option" where
  "sql_lt = sql_cmp (\<lambda>x y. x < y)"

definition sql_ge :: "int option \<Rightarrow> int option \<Rightarrow> bool option" where
  "sql_ge = sql_cmp (\<lambda>x y. x \<ge> y)"

definition is_not_null :: "'a option \<Rightarrow> bool option" where
  "is_not_null x = Some (x \<noteq> None)"

definition is_null :: "'a option \<Rightarrow> bool option" where
  "is_null x = Some (x = None)"

text \<open>\<open>IF c THEN\<close> and \<open>WHERE c\<close> take the branch or the row only when \<open>c\<close> is TRUE.\<close>

definition holds :: "bool option \<Rightarrow> bool" where
  "holds c = (c = Some True)"

definition coalesce :: "'a option \<Rightarrow> 'a \<Rightarrow> 'a" where
  "coalesce x d = (case x of None \<Rightarrow> d | Some v \<Rightarrow> v)"

text \<open>\<open>a IS DISTINCT FROM b\<close> is never NULL: two NULLs are not distinct.\<close>

definition is_distinct_from :: "'a option \<Rightarrow> 'a option \<Rightarrow> bool" where
  "is_distinct_from a b = (a \<noteq> b)"

definition int8_range :: "int \<Rightarrow> bool" where
  "int8_range x = (- 9223372036854775808 \<le> x \<and> x \<le> 9223372036854775807)"

definition int4_range :: "int \<Rightarrow> bool" where
  "int4_range x = (- 2147483648 \<le> x \<and> x \<le> 2147483647)"

definition int8 :: "int \<Rightarrow> error + int" where
  "int8 x = (if int8_range x then Inr x else Inl NumericValueOutOfRange)"

definition int4 :: "int \<Rightarrow> error + int" where
  "int4 x = (if int4_range x then Inr x else Inl NumericValueOutOfRange)"

text \<open>\<open>a + b\<close> and \<open>a - b\<close> on \<open>BIGINT\<close>: NULL when an operand is NULL.\<close>

fun int8_add :: "int option \<Rightarrow> int option \<Rightarrow> error + int option" where
  "int8_add (Some x) (Some y) = (case int8 (x + y) of Inl e \<Rightarrow> Inl e | Inr v \<Rightarrow> Inr (Some v))"
| "int8_add _ _ = Inr None"

fun int8_sub :: "int option \<Rightarrow> int option \<Rightarrow> error + int option" where
  "int8_sub (Some x) (Some y) = (case int8 (x - y) of Inl e \<Rightarrow> Inl e | Inr v \<Rightarrow> Inr (Some v))"
| "int8_sub _ _ = Inr None"

fun int4_add :: "int option \<Rightarrow> int option \<Rightarrow> error + int option" where
  "int4_add (Some x) (Some y) = (case int4 (x + y) of Inl e \<Rightarrow> Inl e | Inr v \<Rightarrow> Inr (Some v))"
| "int4_add _ _ = Inr None"

text \<open>
  \<open>GREATEST(a, b)\<close>: NULL arguments are ignored, and the result is NULL only when
  every argument is NULL (PostgreSQL manual, Conditional Expressions).
\<close>

fun greatest :: "int option \<Rightarrow> int option \<Rightarrow> int option" where
  "greatest (Some x) (Some y) = Some (max x y)"
| "greatest (Some x) None = Some x"
| "greatest None y = y"

section \<open>Tables\<close>

text \<open>
  A row of \<open>public.profiles\<close>, \<open>public.files\<close> and \<open>public.share_links\<close>; the
  field is the column, prefixed by its table. A table is the list of its rows.
  The tables \<open>auth.users\<close> and \<open>public.folders\<close> are outside the model, so the
  foreign keys into them are not checked.
\<close>

record profile_row =
  pr_id :: uuid
  pr_email :: string
  pr_full_name :: "string option"
  pr_avatar_url :: "string option"
  pr_storage_used :: "int option"
  pr_storage_limit :: "int option"
  pr_created_at :: "timestamptz option"
  pr_updated_at :: "timestamptz option"

record file_row =
  f_id :: uuid
  f_name :: string
  f_original_name :: string
  f_file_path :: string
  f_file_type :: string
  f_file_size :: int
  f_folder_id :: "uuid option"
  f_owner_id :: uuid
  f_is_deleted :: "bool option"
  f_deleted_at :: "timestamptz option"
  f_created_at :: "timestamptz option"
  f_updated_at :: "timestamptz option"

record share_link_row =
  sl_id :: uuid
  sl_file_id :: uuid
  sl_token :: string
  sl_password :: "string option"
  sl_expires_at :: "timestamptz option"
  sl_download_limit :: "int option"
  sl_download_count :: "int option"
  sl_created_by :: uuid
  sl_created_at :: "timestamptz option"
  sl_is_active :: "bool option"

record database =
  profiles :: "profile_row list"
  files :: "file_row list"
  share_links :: "share_link_row list"

section \<open>The storage accounting trigger\<close>

text \<open>
  \<open>UPDATE public.profiles SET storage_used = e WHERE id = owner\<close>, with \<open>e\<close> a
  function of the row's \<open>storage_used\<close>. The trigger \<open>update_profiles_updated_at\<close>
  (BEFORE UPDATE, \<open>update_updated_at_column\<close>) stamps every row the statement updates.
  An error in \<open>e\<close> aborts the statement.
\<close>

fun update_profiles_storage ::
  "timestamptz \<Rightarrow> uuid \<Rightarrow> (int option \<Rightarrow> error + int option) \<Rightarrow> profile_row list
    \<Rightarrow> error + profile_row list" where
  "update_profiles_storage now owner e [] = Inr []"
| "update_profiles_storage now owner e (p # ps) =
     (if pr_id p = owner then
        (case e (pr_storage_used p) of
           Inl err \<Rightarrow> Inl err
         | Inr v \<Rightarrow>
            (case update_profiles_storage now owner e ps of
               Inl err \<Rightarrow> Inl err
             | Inr ps' \<Rightarrow> Inr (p\<lparr>pr_storage_used := v, pr_updated_at := Some now\<rparr> # ps')))
      else
        (case update_profiles_storage now owner e ps of
           Inl err \<Rightarrow> Inl err
         | Inr ps' \<Rightarrow> Inr (p # ps')))"

text \<open>The three right-hand sides the trigger assigns to \<open>storage_used\<close>.\<close>

definition add_size :: "int \<Rightarrow> int option \<Rightarrow> error + int option" where
  \<comment> \<open>\<open>storage_used + NEW.file_size\<close>\<close>
  "add_size sz used = int8_add used (Some sz)"

definition subtract_size :: "int \<Rightarrow> int option \<Rightarrow> error + int option" where
  \<comment> \<open>\<open>GREATEST(0, storage_used - OLD.file_size)\<close>\<close>
  "subtract_size sz used =
     (case int8_sub used (Some sz) of Inl err \<Rightarrow> Inl err | Inr v \<Rightarrow> Inr (greatest (Some 0) v))"

definition add_delta :: "int \<Rightarrow> int \<Rightarrow> int option \<Rightarrow> error + int option" where
  \<comment> \<open>\<open>storage_used + (NEW.file_size - OLD.file_size)\<close>\<close>
  "add_delta new_sz old_sz used =
     (case int8_sub (Some new_sz) (Some old_sz) of
        Inl err \<Rightarrow> Inl err
      | Inr d \<Rightarrow> int8_add used d)"

text \<open>
  \<open>TG_OP\<close> with the rows the trigger sees: \<open>NEW\<close> on INSERT, \<open>OLD\<close> on DELETE,
  \<open>OLD\<close> and \<open>NEW\<close> on UPDATE.
\<close>

datatype tg_event =
    TG_INSERT file_row
  | TG_DELETE file_row
  | TG_UPDATE file_row file_row

definition counted :: "file_row \<Rightarrow> bool" where
  \<comment> \<open>\<open>NOT COALESCE(is_deleted, FALSE)\<close>\<close>
  "counted r = (\<not> coalesce (f_is_deleted r) False)"

fun update_storage_usage ::
  "timestamptz \<Rightarrow> tg_event \<Rightarrow> profile_row list \<Rightarrow> error + profile_row list" where
  "update_storage_usage now (TG_INSERT new) ps =
     (if counted new then
        update_profiles_storage now (f_owner_id new) (add_size (f_file_size new)) ps
      else Inr ps)"
| "update_storage_usage now (TG_DELETE old) ps =
     (if counted old then
        update_profiles_storage now (f_owner_id old) (subtract_size (f_file_size old)) ps
      else Inr ps)"
| "update_storage_usage now (TG_UPDATE old new) ps =
     (if is_distinct_from (Some (f_owner_id new)) (Some (f_owner_id old)) then
        (case (if counted old then
                 update_profiles_storage now (f_owner_id old) (subtract_size (f_file_size old)) ps
               else Inr ps) of
           Inl err \<Rightarrow> Inl err
         | Inr ps1 \<Rightarrow>
            (if counted new then
               update_profiles_storage now (f_owner_id new) (add_size (f_file_size new)) ps1
             else Inr ps1))
      else if counted old \<and> counted new then
        (if f_file_size new \<noteq> f_file_size old then
           update_profiles_storage now (f_owner_id new)
             (add_delta (f_file_size new) (f_file_size old)) ps
         else Inr ps)
      else if counted old \<and> \<not> counted new then
        update_profiles_storage now (f_owner_id new) (subtract_size (f_file_size old)) ps
      else if \<not> counted old \<and> counted new then
        update_profiles_storage now (f_owner_id new) (add_size (f_file_size new)) ps
      else Inr ps)"

text \<open>The trigger fires once for each row of a statement, in turn.\<close>

fun fire_triggers ::
  "timestamptz \<Rightarrow> tg_event list \<Rightarrow> profile_row list \<Rightarrow> error + profile_row list" where
  "fire_triggers now [] ps = Inr ps"
| "fire_triggers now (ev # evs) ps =
     (case update_storage_usage now ev ps of
        Inl err \<Rightarrow> Inl err
      | Inr ps' \<Rightarrow> fire_triggers now evs ps')"

section \<open>Statements on the files table\<close>

text \<open>
  A statement either completes or raises, and a statement that raises changes nothing.
  \<open>on_file_storage_change\<close> is \<open>AFTER INSERT OR DELETE OR UPDATE ... FOR EACH ROW\<close>.
\<close>

definition insert_file :: "timestamptz \<Rightarrow> file_row \<Rightarrow> database \<Rightarrow> error + database" where
  \<comment> \<open>\<open>INSERT INTO public.files VALUES (new)\<close>; \<open>id\<close> is the primary key\<close>
  "insert_file now new db =
     (if f_id new \<in> set (map f_id (files db)) then Inl UniqueViolation
      else
        (case fire_triggers now [TG_INSERT new] (profiles db) of
           Inl err \<Rightarrow> Inl err
         | Inr ps \<Rightarrow> Inr (db\<lparr>profiles := ps, files := files db @ [new]\<rparr>)))"

definition delete_file :: "timestamptz \<Rightarrow> uuid \<Rightarrow> database \<Rightarrow> error + database" where
  \<comment> \<open>\<open>DELETE FROM public.files WHERE id = fid\<close>; \<open>share_links.file_id\<close> is
      \<open>ON DELETE CASCADE\<close>\<close>
  "delete_file now fid db =
     (case fire_triggers now (map TG_DELETE (filter (\<lambda>r. f_id r = fid) (files db)))
             (profiles db) of
        Inl err \<Rightarrow> Inl err
      | Inr ps \<Rightarrow>
          Inr (db\<lparr>profiles := ps,
                  files := filter (\<lambda>r. f_id r \<noteq> fid) (files db),
                  share_links := filter (\<lambda>s. sl_file_id s \<noteq> fid) (share_links db)\<rparr>))"

text \<open>
  \<open>UPDATE public.files SET ... WHERE id = fid\<close>, the SET list given as a function of
  the old row (it assigns no \<open>id\<close>). \<open>update_files_updated_at\<close> (BEFORE UPDATE) stamps
  the new row before it is stored and before the AFTER trigger sees it.
\<close>

definition new_row :: "timestamptz \<Rightarrow> (file_row \<Rightarrow> file_row) \<Rightarrow> file_row \<Rightarrow> file_row" where
  "new_row now set_list old = (set_list old)\<lparr>f_updated_at := Some now\<rparr>"

definition update_file ::
  "timestamptz \<Rightarrow> uuid \<Rightarrow> (file_row \<Rightarrow> file_row) \<Rightarrow> database \<Rightarrow> error + database" where
  "update_file now fid set_list db =
     (case fire_triggers now
             (map (\<lambda>old. TG_UPDATE old (new_row now set_list old))
                (filter (\<lambda>r. f_id r = fid) (files db)))
             (profiles db) of
        Inl err \<Rightarrow> Inl err
      | Inr ps \<Rightarrow>
          Inr (db\<lparr>profiles := ps,
                  files := map (\<lambda>r. if f_id r = fid then new_row now set_list r else r)
                             (files db)\<rparr>))"

section \<open>Replaying mutations of file records\<close>

text \<open>
  The SET lists of the two soft-delete statements of the source:
  \<open>SET is_deleted = TRUE, deleted_at = NOW()\<close> and
  \<open>SET is_deleted = FALSE, deleted_at = NULL\<close>.
\<close>

definition set_soft_deleted :: "timestamptz \<Rightarrow> file_row \<Rightarrow> file_row" where
  "set_soft_deleted now r = r\<lparr>f_is_deleted := Some True, f_deleted_at := Some now\<rparr>"

definition set_restored :: "file_row \<Rightarrow> file_row" where
  "set_restored r = r\<lparr>f_is_deleted := Some False, f_deleted_at := None\<rparr>"

text \<open>
  The mutations of a file record, each one statement on \<open>public.files\<close> (the
  front end issues them on the table directly): an insert, a delete, the two
  soft-delete updates, \<open>SET file_size = n\<close> and \<open>SET owner_id = u\<close>.
\<close>

datatype file_op =
    InsertFile file_row
  | PermanentDelete uuid
  | SoftDelete uuid
  | Restore uuid
  | ChangeSize uuid int
  | TransferOwner uuid uuid

fun apply_op :: "timestamptz \<Rightarrow> file_op \<Rightarrow> database \<Rightarrow> error + database" where
  "apply_op now (InsertFile r) db = insert_file now r db"
| "apply_op now (PermanentDelete fid) db = delete_file now fid db"
| "apply_op now (SoftDelete fid) db = update_file now fid (set_soft_deleted now) db"
| "apply_op now (Restore fid) db = update_file now fid set_restored db"
| "apply_op now (ChangeSize fid n) db = update_file now fid (\<lambda>r. r\<lparr>f_file_size := n\<rparr>) db"
| "apply_op now (TransferOwner fid u) db = update_file now fid (\<lambda>r. r\<lparr>f_owner_id := u\<rparr>) db"

text \<open>
  A sequence of mutations, each in a transaction of its own at its own time: one that
  raises is rolled back and the next one runs on the unchanged database.
\<close>

fun replay :: "(timestamptz \<times> file_op) list \<Rightarrow> database \<Rightarrow> database" where
  "replay [] db = db"
| "replay ((now, op) # ops) db =
     replay ops (case apply_op now op db of Inl err \<Rightarrow> db | Inr db' \<Rightarrow> db')"

section \<open>The ledger and its recomputation\<close>

text \<open>What one file adds to the usage of account \<open>u\<close>.\<close>

definition contribution :: "uuid \<Rightarrow> file_row \<Rightarrow> int" where
  "contribution u r = (if f_owner_id r = u \<and> counted r then f_file_size r else 0)"

text \<open>The sum of \<open>file_size\<close> over the files of \<open>u\<close> that are not soft-deleted.\<close>

definition recomputed_usage :: "uuid \<Rightarrow> file_row list \<Rightarrow> int" where
  "recomputed_usage u fs =
     sum_list (map f_file_size (filter (\<lambda>r. f_owner_id r = u \<and> counted r) fs))"

definition ledger_matches :: "(uuid \<Rightarrow> int) \<Rightarrow> profile_row list \<Rightarrow> bool" where
  "ledger_matches t ps = list_all (\<lambda>p. pr_storage_used p = Some (t (pr_id p))) ps"

text \<open>Every account's \<open>storage_used\<close> is the recomputed usage.\<close>

definition ledger_consistent :: "database \<Rightarrow> bool" where
  "ledger_consistent db = ledger_matches (\<lambda>u. recomputed_usage u (files db)) (profiles db)"

definition sizes_nonneg :: "file_row list \<Rightarrow> bool" where
  "sizes_nonneg fs = list_all (\<lambda>r. 0 \<le> f_file_size r) fs"

fun op_size_nonneg :: "file_op \<Rightarrow> bool" where
  "op_size_nonneg (InsertFile r) = (0 \<le> f_file_size r)"
| "op_size_nonneg (ChangeSize fid n) = (0 \<le> n)"
| "op_size_nonneg _ = True"

text \<open>The \<open>storage_used\<close> of the account \<open>u\<close> (of each row with that id).\<close>

definition storage_used_of :: "uuid \<Rightarrow> database \<Rightarrow> int option list" where
  "storage_used_of u db = map pr_storage_used (filter (\<lambda>p. pr_id p = u) (profiles db))"

text \<open>What the row of a trigger event counts for before and after the statement.\<close>

fun before_event :: "tg_event \<Rightarrow> uuid \<Rightarrow> int" where
  "before_event (TG_INSERT new) u = 0"
| "before_event (TG_DELETE old) u = contribution u old"
| "before_event (TG_UPDATE old new) u = contribution u old"

fun after_event :: "tg_event \<Rightarrow> uuid \<Rightarrow> int" where
  "after_event (TG_INSERT new) u = contribution u new"
| "after_event (TG_DELETE old) u = 0"
| "after_event (TG_UPDATE old new) u = contribution u new"

section \<open>PL/pgSQL functions\<close>

text \<open>
  A function takes the database and gives what it returns or the exception it raises,
  together with the database as its statements left it at that point.

  No function of the source has an \<open>EXCEPTION\<close> clause. The PostgreSQL manual
  (PL/pgSQL, Trapping Errors): by default, any error occurring in a PL/pgSQL function
  aborts execution of the function and the surrounding transaction. So an exception
  leaves the function, and every change the function had made is undone with the
  statement that called it: \<open>call\<close> is what the caller of the function observes.
\<close>

type_synonym 'a proc = "database \<Rightarrow> (error + 'a) \<times> database"

definition call :: "'a proc \<Rightarrow> 'a proc" where
  "call body db =
     (case body db of
        (Inl err, db') \<Rightarrow> (Inl err, db)
      | (Inr res, db') \<Rightarrow> (Inr res, db'))"

text \<open>
  Names. Inside a SQL statement of a PL/pgSQL function an unqualified name can be a
  variable of the function (a parameter, a column of \<open>RETURNS TABLE\<close>, which is an
  \<open>OUT\<close> parameter, or a declared variable) or a column of a table of the statement.
  The PostgreSQL manual (PL/pgSQL, Variable Substitution): by default, PL/pgSQL will
  report an error if a name in an SQL statement could refer to either a variable or a
  table column. That default is \<open>plpgsql.variable_conflict = error\<close>, and no function
  of the source sets \<open>#variable_conflict\<close>. The error (42702, column reference is
  ambiguous) is raised when the statement is first run, whatever rows it would find.
  Only names in expressions count (select list, \<open>WHERE\<close>, right-hand sides,
  \<open>RETURNING\<close>); the targets of \<open>SET\<close>, of \<open>INTO\<close> and of an \<open>INSERT\<close> column list do
  not, and a name qualified by a table alias or a record variable (\<open>f.file_path\<close>,
  \<open>sl.id\<close>) is never ambiguous here. Each function below lists its variables, and
  each of its statements the unqualified names its expressions use.
\<close>

definition files_columns :: "string list" where
  "files_columns =
     [''id'', ''name'', ''original_name'', ''file_path'', ''file_type'', ''file_size'',
      ''folder_id'', ''owner_id'', ''is_deleted'', ''deleted_at'', ''created_at'',
      ''updated_at'']"

definition share_links_columns :: "string list" where
  "share_links_columns =
     [''id'', ''file_id'', ''token'', ''password'', ''expires_at'', ''download_limit'',
      ''download_count'', ''created_by'', ''created_at'', ''is_active'']"

definition ambiguous :: "string list \<Rightarrow> string list \<Rightarrow> string list \<Rightarrow> bool" where
  \<comment> \<open>the function's variables, the statement's columns, the names its expressions use\<close>
  "ambiguous vars cols refs = list_ex (\<lambda>n. n \<in> set vars \<and> n \<in> set cols) refs"

text \<open>
  \<open>SELECT ... INTO ... FROM public.files WHERE id = p_file_id\<close>: the first row, and
  \<open>FOUND\<close> is whether there is one.
\<close>

definition select_file :: "uuid option \<Rightarrow> file_row list \<Rightarrow> file_row option" where
  "select_file p_file_id fs = find (\<lambda>r. holds (sql_eq (Some (f_id r)) p_file_id)) fs"

subsection \<open>get_file_by_token\<close>

record shared_file =
  file_id :: uuid
  file_path :: string
  file_name :: string
  original_name :: string
  file_type :: string

definition shared :: "file_row \<Rightarrow> shared_file" where
  \<comment> \<open>\<open>SELECT f.id, f.file_path, f.name, f.original_name, f.file_type\<close>\<close>
  "shared f =
     \<lparr>file_id = f_id f, file_path = f_file_path f, file_name = f_name f,
      original_name = f_original_name f, file_type = f_file_type f\<rparr>"

text \<open>\<open>UPDATE public.share_links SET download_count = download_count + 1 WHERE id = lid\<close>\<close>

fun increment_download_count ::
  "uuid \<Rightarrow> share_link_row list \<Rightarrow> error + share_link_row list" where
  "increment_download_count lid [] = Inr []"
| "increment_download_count lid (s # ss) =
     (if sl_id s = lid then
        (case int4_add (sl_download_count s) (Some 1) of
           Inl err \<Rightarrow> Inl err
         | Inr c \<Rightarrow>
            (case increment_download_count lid ss of
               Inl err \<Rightarrow> Inl err
             | Inr ss' \<Rightarrow> Inr (s\<lparr>sl_download_count := c\<rparr> # ss')))
      else
        (case increment_download_count lid ss of
           Inl err \<Rightarrow> Inl err
         | Inr ss' \<Rightarrow> Inr (s # ss')))"

definition get_file_by_token_vars :: "string list" where
  "get_file_by_token_vars =
     [''p_token'', ''p_password'', ''file_id'', ''file_path'', ''file_name'',
      ''original_name'', ''file_type'', ''sl'']"

definition get_file_by_token ::
  "timestamptz \<Rightarrow> string option \<Rightarrow> string option \<Rightarrow> shared_file list proc" where
  "get_file_by_token now p_token p_password db =
     (if ambiguous get_file_by_token_vars share_links_columns
           [''token'', ''p_token'', ''is_active'']
      then (Inl AmbiguousColumn, db)
      else
        (case find (\<lambda>s. holds (sql_and (sql_eq (Some (sl_token s)) p_token)
                                        (sql_eq (sl_is_active s) (Some True))))
                (share_links db) of
           None \<Rightarrow> (Inl InvalidToken, db)
         | Some sl \<Rightarrow>
            if holds (sql_and (is_not_null (sl_expires_at sl))
                              (sql_lt (sl_expires_at sl) (Some now)))
            then (Inl Expired, db)
            else if holds (sql_and (is_not_null (sl_password sl))
                                   (sql_ne (sl_password sl) p_password))
            then (Inl InvalidPassword, db)
            else if holds (sql_and (is_not_null (sl_download_limit sl))
                                   (sql_ge (sl_download_count sl) (sl_download_limit sl)))
            then (Inl LimitReached, db)
            else if ambiguous get_file_by_token_vars share_links_columns
                      [''download_count'', ''id'']
            then (Inl AmbiguousColumn, db)
            else
              (case increment_download_count (sl_id sl) (share_links db) of
                 Inl err \<Rightarrow> (Inl err, db)
               | Inr links \<Rightarrow>
                  (let db' = db\<lparr>share_links := links\<rparr>;
                       found = map shared
                                 (filter (\<lambda>f. f_id f = sl_file_id sl \<and> counted f) (files db'))
                   in if found = [] then (Inl FileUnavailable, db')
                      else (Inr found, db')))))"

subsection \<open>create_share_link\<close>

text \<open>\<open>encode(b, 'hex')\<close>: two lower-case hexadecimal digits for each byte.\<close>

definition hex_digit :: "nat \<Rightarrow> char" where
  "hex_digit n = ''0123456789abcdef'' ! (n mod 16)"

definition encode_hex :: "8 word list \<Rightarrow> string" where
  "encode_hex bs = concat (map (\<lambda>b. [hex_digit (unat b div 16), hex_digit (unat b)]) bs)"

text \<open>
  \<open>INSERT INTO public.share_links\<close>: \<open>id\<close> is the primary key, \<open>token\<close> is
  \<open>UNIQUE\<close>, \<open>file_id\<close> references \<open>public.files\<close>.
\<close>

definition insert_share_link :: "share_link_row \<Rightarrow> database \<Rightarrow> error + database" where
  "insert_share_link new db =
     (if sl_id new \<in> set (map sl_id (share_links db))
         \<or> sl_token new \<in> set (map sl_token (share_links db))
      then Inl UniqueViolation
      else if sl_file_id new \<notin> set (map f_id (files db)) then Inl ForeignKeyViolation
      else Inr (db\<lparr>share_links := share_links db @ [new]\<rparr>))"

record created_link =
  share_id :: uuid
  token :: string
  expires_at :: "timestamptz option"

definition create_share_link_vars :: "string list" where
  "create_share_link_vars =
     [''p_file_id'', ''p_expires_hours'', ''p_password'', ''p_download_limit'',
      ''share_id'', ''token'', ''expires_at'', ''owner'', ''uid'', ''gen_token'', ''rec'']"

text \<open>
  \<open>uid\<close> is \<open>auth.uid()\<close>, NULL for a caller who is not signed in. The two random
  draws are parameters: \<open>random_bytes\<close> is what \<open>gen_random_bytes(6)\<close> gave and
  \<open>random_uuid\<close> what the column default \<open>gen_random_uuid()\<close> gave. The expiry is
  \<open>NOW() + (p_expires_hours || ' hours')::interval\<close>, an hour being 3600000000
  microseconds.
\<close>

definition create_share_link ::
  "uuid option \<Rightarrow> timestamptz \<Rightarrow> 8 word list \<Rightarrow> uuid \<Rightarrow> uuid option \<Rightarrow> int option
    \<Rightarrow> string option \<Rightarrow> int option \<Rightarrow> created_link proc" where
  "create_share_link uid now random_bytes random_uuid p_file_id p_expires_hours p_password
       p_download_limit db =
     (let gen_token = encode_hex random_bytes in
      if ambiguous create_share_link_vars files_columns [''owner_id'', ''id'', ''p_file_id'']
      then (Inl AmbiguousColumn, db)
      else
        (case select_file p_file_id (files db) of
           None \<Rightarrow> (Inl NotFound, db)
         | Some r \<Rightarrow>
            if is_distinct_from (Some (f_owner_id r)) uid then (Inl NotAuthorized, db)
            else if ambiguous create_share_link_vars share_links_columns
                      [''id'', ''token'', ''expires_at'']
            then (Inl AmbiguousColumn, db)
            else
              (case uid of
                 None \<Rightarrow> (Inl NotNullViolation, db)
               | Some creator \<Rightarrow>
                  (let new =
                     \<lparr>sl_id = random_uuid, sl_file_id = f_id r, sl_token = gen_token,
                      sl_password = p_password,
                      sl_expires_at =
                        (case p_expires_hours of
                           None \<Rightarrow> None
                         | Some h \<Rightarrow> Some (now + h * 3600000000)),
                      sl_download_limit = p_download_limit, sl_download_count = Some 0,
                      sl_created_by = creator, sl_created_at = Some now,
                      sl_is_active = Some True\<rparr>
                   in case insert_share_link new db of
                        Inl err \<Rightarrow> (Inl err, db)
                      | Inr db' \<Rightarrow>
                          (Inr \<lparr>share_id = sl_id new, token = sl_token new,
                                expires_at = sl_expires_at new\<rparr>, db')))))"

subsection \<open>rename_file, soft_delete_file, restore_file, permanently_delete_file\<close>

definition rename_file_vars :: "string list" where
  "rename_file_vars =
     [''p_file_id'', ''p_new_name'', ''p_new_original_name'', ''file_id'', ''name'',
      ''uid'', ''owner'']"

definition rename_file ::
  "uuid option \<Rightarrow> timestamptz \<Rightarrow> uuid option \<Rightarrow> string option \<Rightarrow> string option
    \<Rightarrow> (uuid \<times> string) proc" where
  "rename_file uid now p_file_id p_new_name p_new_original_name db =
     (if ambiguous rename_file_vars files_columns [''owner_id'', ''id'', ''p_file_id'']
      then (Inl AmbiguousColumn, db)
      else
        (case select_file p_file_id (files db) of
           None \<Rightarrow> (Inl NotFound, db)
         | Some r \<Rightarrow>
            if is_distinct_from (Some (f_owner_id r)) uid then (Inl NotAuthorized, db)
            else if ambiguous rename_file_vars files_columns
                      [''p_new_name'', ''p_new_original_name'', ''original_name'', ''id'',
                       ''p_file_id'', ''id'', ''name'']
            then (Inl AmbiguousColumn, db)
            else
              (case p_new_name of
                 None \<Rightarrow> (Inl NotNullViolation, db)
               | Some new_name \<Rightarrow>
                  (case update_file now (f_id r)
                          (\<lambda>old. old\<lparr>f_name := new_name,
                                      f_original_name :=
                                        coalesce p_new_original_name (f_original_name old)\<rparr>)
                          db of
                     Inl err \<Rightarrow> (Inl err, db)
                   | Inr db' \<Rightarrow> (Inr (f_id r, new_name), db')))))"

definition soft_delete_file_vars :: "string list" where
  "soft_delete_file_vars = [''p_file_id'', ''file_id'', ''file_path'', ''uid'', ''owner'']"

definition soft_delete_file ::
  "uuid option \<Rightarrow> timestamptz \<Rightarrow> uuid option \<Rightarrow> (uuid \<times> string) proc" where
  "soft_delete_file uid now p_file_id db =
     (if ambiguous soft_delete_file_vars files_columns
           [''owner_id'', ''file_path'', ''id'', ''p_file_id'']
      then (Inl AmbiguousColumn, db)
      else
        (case select_file p_file_id (files db) of
           None \<Rightarrow> (Inl NotFound, db)
         | Some r \<Rightarrow>
            if is_distinct_from (Some (f_owner_id r)) uid then (Inl NotAuthorized, db)
            else if ambiguous soft_delete_file_vars files_columns [''id'', ''p_file_id'']
            then (Inl AmbiguousColumn, db)
            else
              (case update_file now (f_id r) (set_soft_deleted now) db of
                 Inl err \<Rightarrow> (Inl err, db)
               | Inr db' \<Rightarrow> (Inr (f_id r, f_file_path r), db'))))"

definition restore_file_vars :: "string list" where
  "restore_file_vars = [''p_file_id'', ''file_id'', ''uid'', ''owner'']"

definition restore_file :: "uuid option \<Rightarrow> timestamptz \<Rightarrow> uuid option \<Rightarrow> uuid proc" where
  "restore_file uid now p_file_id db =
     (if ambiguous restore_file_vars files_columns [''owner_id'', ''id'', ''p_file_id'']
      then (Inl AmbiguousColumn, db)
      else
        (case select_file p_file_id (files db) of
           None \<Rightarrow> (Inl NotFound, db)
         | Some r \<Rightarrow>
            if is_distinct_from (Some (f_owner_id r)) uid then (Inl NotAuthorized, db)
            else if ambiguous restore_file_vars files_columns [''id'', ''p_file_id'']
            then (Inl AmbiguousColumn, db)
            else
              (case update_file now (f_id r) set_restored db of
                 Inl err \<Rightarrow> (Inl err, db)
               | Inr db' \<Rightarrow> (Inr (f_id r), db'))))"

definition permanently_delete_file_vars :: "string list" where
  "permanently_delete_file_vars =
     [''p_file_id'', ''file_id'', ''file_path'', ''uid'', ''owner'', ''fpath'']"

definition permanently_delete_file ::
  "uuid option \<Rightarrow> timestamptz \<Rightarrow> uuid option \<Rightarrow> (uuid \<times> string) proc" where
  "permanently_delete_file uid now p_file_id db =
     (if ambiguous permanently_delete_file_vars files_columns
           [''owner_id'', ''file_path'', ''id'', ''p_file_id'']
      then (Inl AmbiguousColumn, db)
      else
        (case select_file p_file_id (files db) of
           None \<Rightarrow> (Inl NotFound, db)
         | Some r \<Rightarrow>
            if is_distinct_from (Some (f_owner_id r)) uid then (Inl NotAuthorized, db)
            else if ambiguous permanently_delete_file_vars files_columns
                      [''id'', ''p_file_id'']
            then (Inl AmbiguousColumn, db)
            else
              (case delete_file now (f_id r) db of
                 Inl err \<Rightarrow> (Inl err, db)
               | Inr db' \<Rightarrow> (Inr (f_id r, f_file_path r), db'))))"

subsection \<open>list_files\<close>

text \<open>
  \<open>ORDER BY created_at DESC\<close>: later rows first, and NULL before every timestamp
  (\<open>NULLS FIRST\<close> is the default of \<open>DESC\<close>). SQL leaves the order of rows with equal
  keys open; the insertion sort keeps them in table order.
\<close>

fun created_at_desc :: "timestamptz option \<Rightarrow> timestamptz option \<Rightarrow> bool" where
  "created_at_desc None _ = True"
| "created_at_desc (Some x) None = False"
| "created_at_desc (Some x) (Some y) = (y \<le> x)"

fun insert_by_created_at :: "file_row \<Rightarrow> file_row list \<Rightarrow> file_row list" where
  "insert_by_created_at r [] = [r]"
| "insert_by_created_at r (x # xs) =
     (if created_at_desc (f_created_at r) (f_created_at x) then r # x # xs
      else x # insert_by_created_at r xs)"

definition order_by_created_at_desc :: "file_row list \<Rightarrow> file_row list" where
  "order_by_created_at_desc rows = foldr insert_by_created_at rows []"

text \<open>
  \<open>LIMIT p_limit OFFSET p_offset\<close>: a NULL limit is no limit, a NULL offset is 0, and a
  negative one raises.
\<close>

definition limit_offset :: "int option \<Rightarrow> int option \<Rightarrow> 'a list \<Rightarrow> error + 'a list" where
  "limit_offset p_limit p_offset rows =
     (if coalesce p_offset 0 < 0 then Inl InvalidRowCount
      else
        (case p_limit of
           None \<Rightarrow> Inr (drop (nat (coalesce p_offset 0)) rows)
         | Some n \<Rightarrow>
            if n < 0 then Inl InvalidRowCount
            else Inr (take (nat n) (drop (nat (coalesce p_offset 0)) rows))))"

definition list_files_where ::
  "uuid option \<Rightarrow> uuid option \<Rightarrow> bool option \<Rightarrow> file_row \<Rightarrow> bool option" where
  \<comment> \<open>the \<open>WHERE\<close> clause of the query\<close>
  "list_files_where uid p_folder_id p_include_deleted r =
     sql_and
       (sql_and (sql_eq (Some (f_owner_id r)) uid)
          (sql_or (sql_and (is_null p_folder_id) (is_null (f_folder_id r)))
                  (sql_and (is_not_null p_folder_id) (sql_eq (f_folder_id r) p_folder_id))))
       (sql_or p_include_deleted (Some (counted r)))"

definition list_files_vars :: "string list" where
  "list_files_vars = [''p_folder_id'', ''p_limit'', ''p_offset'', ''p_include_deleted'', ''uid'']"

definition list_files ::
  "uuid option \<Rightarrow> uuid option \<Rightarrow> int option \<Rightarrow> int option \<Rightarrow> bool option
    \<Rightarrow> file_row list proc" where
  "list_files uid p_folder_id p_limit p_offset p_include_deleted db =
     (if ambiguous list_files_vars files_columns
           [''owner_id'', ''uid'', ''p_folder_id'', ''folder_id'', ''p_include_deleted'',
            ''is_deleted'', ''created_at'', ''p_limit'', ''p_offset'']
      then (Inl AmbiguousColumn, db)
      else
        (case limit_offset p_limit p_offset
                (order_by_created_at_desc
                   (filter (\<lambda>r. holds (list_files_where uid p_folder_id p_include_deleted r))
                      (files db))) of
           Inl err \<Rightarrow> (Inl err, db)
         | Inr rows \<Rightarrow> (Inr rows, db)))"

section \<open>Example data\<close>

definition example_profile :: "uuid \<Rightarrow> int option \<Rightarrow> profile_row" where
  "example_profile u used =
     \<lparr>pr_id = u, pr_email = ''user@example.org'', pr_full_name = None, pr_avatar_url = None,
      pr_storage_used = used, pr_storage_limit = Some 5368709120,
      pr_created_at = Some 0, pr_updated_at = Some 0\<rparr>"

definition example_file :: "uuid \<Rightarrow> uuid \<Rightarrow> int \<Rightarrow> bool option \<Rightarrow> file_row" where
  "example_file fid owner sz del =
     \<lparr>f_id = fid, f_name = ''report.pdf'', f_original_name = ''report.pdf'',
      f_file_path = ''files/report.pdf'', f_file_type = ''application/pdf'',
      f_file_size = sz, f_folder_id = None, f_owner_id = owner, f_is_deleted = del,
      f_deleted_at = None, f_created_at = Some 0, f_updated_at = Some 0\<rparr>"

text \<open>Two accounts that own no file.\<close>

definition empty_accounts :: database where
  "empty_accounts =
     \<lparr>profiles = [example_profile 1 (Some 0), example_profile 2 (Some 0)],
      files = [], share_links = []\<rparr>"

definition negative_size_ops :: "(timestamptz \<times> file_op) list" where
  "negative_size_ops =
     [(1, InsertFile (example_file 10 1 (- 5) (Some False))),
      (2, InsertFile (example_file 11 1 3 (Some False))),
      (3, PermanentDelete 11)]"

definition example_ops :: "(timestamptz \<times> file_op) list" where
  "example_ops =
     [(1, InsertFile (example_file 10 1 1000 (Some False))),
      (2, InsertFile (example_file 11 1 250 None)),
      (3, SoftDelete 10),
      (4, ChangeSize 11 400),
      (5, Restore 10),
      (6, TransferOwner 11 2),
      (7, PermanentDelete 10)]"

text \<open>An account whose ledger (50) is below the size of its one file (100).\<close>

definition drifted_account :: database where
  "drifted_account =
     \<lparr>profiles = [example_profile 1 (Some 50)],
      files = [example_file 10 1 100 (Some False)], share_links = []\<rparr>"

text \<open>An account whose ledger (1500) counts its two files.\<close>

definition settled_account :: database where
  "settled_account =
     \<lparr>profiles = [example_profile 1 (Some 1500)],
      files = [example_file 10 1 1000 (Some False), example_file 11 1 500 None],
      share_links = []\<rparr>"

text \<open>
  Share links of account 1: file 10 is live, file 11 is soft-deleted. The links are
  \<open>open\<close> (no guard), \<open>secret\<close> (password \<open>pw\<close>, one download), \<open>old\<close> (expired at
  50, and used up), \<open>full\<close> (used up), \<open>gone\<close> (bound to the soft-deleted file) and
  \<open>off\<close> (not active).
\<close>

definition example_link ::
  "uuid \<Rightarrow> uuid \<Rightarrow> string \<Rightarrow> string option \<Rightarrow> timestamptz option \<Rightarrow> int option \<Rightarrow> int option
    \<Rightarrow> bool option \<Rightarrow> share_link_row" where
  "example_link lid fid tok pw exp lim cnt act =
     \<lparr>sl_id = lid, sl_file_id = fid, sl_token = tok, sl_password = pw, sl_expires_at = exp,
      sl_download_limit = lim, sl_download_count = cnt, sl_created_by = 1,
      sl_created_at = Some 0, sl_is_active = act\<rparr>"

definition sharing_db :: database where
  "sharing_db =
     \<lparr>profiles = [example_profile 1 (Some 1000), example_profile 2 (Some 0)],
      files = [example_file 10 1 1000 (Some False), example_file 11 1 500 (Some True)],
      share_links =
        [example_link 20 10 ''open'' None None None (Some 0) (Some True),
         example_link 21 10 ''secret'' (Some ''pw'') None (Some 1) (Some 0) (Some True),
         example_link 22 10 ''old'' (Some ''pw'') (Some 50) (Some 1) (Some 1) (Some True),
         example_link 23 10 ''full'' None None (Some 1) (Some 1) (Some True),
         example_link 24 11 ''gone'' None None (Some 2) (Some 0) (Some True),
         example_link 25 10 ''off'' None None None (Some 0) (Some False)]\<rparr>"

text \<open>One file of account 1 and one share link, whose token is the hex of 00 ff 00 ff 00 ff.\<close>

definition issued_db :: database where
  "issued_db =
     \<lparr>profiles = [example_profile 1 (Some 1000)],
      files = [example_file 10 1 1000 (Some False)],
      share_links = [example_link 20 10 ''00ff00ff00ff'' None None None (Some 0) (Some True)]\<rparr>"

text \<open>
  Files of accounts 1 and 2, written as (id, created_at): account 1 has (10, 5) and
  (14, 9) at the root, (11, 6) in folder 7 and (12, 7) soft-deleted at the root;
  account 2 has (13, 8) at the root.
\<close>

definition placed_file ::
  "uuid \<Rightarrow> uuid \<Rightarrow> uuid option \<Rightarrow> bool option \<Rightarrow> timestamptz \<Rightarrow> file_row" where
  "placed_file fid owner folder del created =
     (example_file fid owner 100 del)\<lparr>f_folder_id := folder, f_created_at := Some created\<rparr>"

definition folders_db :: database where
  "folders_db =
     \<lparr>profiles = [example_profile 1 (Some 300), example_profile 2 (Some 100)],
      files =
        [placed_file 10 1 None (Some False) 5,
         placed_file 11 1 (Some 7) (Some False) 6,
         placed_file 12 1 None (Some True) 7,
         placed_file 13 2 None (Some False) 8,
         placed_file 14 1 None None 9],
      share_links = []\<rparr>"

text \<open>
  A link of account 1 to its live file 10 that has a password and has used up its one
  download.
\<close>

definition locked_db :: database where
  "locked_db =
     \<lparr>profiles = [example_profile 1 (Some 1000)],
      files = [example_file 10 1 1000 (Some False)],
      share_links = [example_link 20 10 ''locked'' (Some ''pw'') None (Some 1) (Some 1) (Some True)]\<rparr>"

section \<open>The ledger under the accounting trigger\<close>

text \<open>
  The trigger keeps the ledger by deltas. Its subtractions are floored at zero, so a
  delta is the right one only while the floor does not bite: the usage of the account
  without the row at hand must not be negative.
\<close>

lemma recomputed_usage_Nil [simp]: "recomputed_usage u [] = 0"
  by (simp add: recomputed_usage_def)

lemma recomputed_usage_Cons [simp]:
  "recomputed_usage u (r # rs) = contribution u r + recomputed_usage u rs"
  by (simp add: recomputed_usage_def contribution_def)

lemma recomputed_usage_append [simp]:
  "recomputed_usage u (xs @ ys) = recomputed_usage u xs + recomputed_usage u ys"
  by (induction xs) simp_all

lemma contribution_nonneg: "0 \<le> f_file_size r \<Longrightarrow> 0 \<le> contribution u r"
  by (simp add: contribution_def)

lemma recomputed_usage_nonneg: "sizes_nonneg fs \<Longrightarrow> 0 \<le> recomputed_usage u fs"
  by (induction fs) (simp_all add: sizes_nonneg_def contribution_nonneg)

lemma update_profiles_storage_ledger:
  assumes "update_profiles_storage now owner e ps = Inr ps'"
    and "ledger_matches t ps"
    and "\<And>v. e (Some (t owner)) = Inr v \<Longrightarrow> v = Some (t' owner)"
    and "\<And>u. u \<noteq> owner \<Longrightarrow> t' u = t u"
  shows "ledger_matches t' ps'"
  using assms(1,2)
proof (induction ps arbitrary: ps')
  case Nil
  then show ?case by (simp add: ledger_matches_def)
next
  case (Cons p ps)
  show ?case
  proof (cases "pr_id p = owner")
    case True
    from Cons.prems(2) have used: "pr_storage_used p = Some (t owner)"
      and rest: "ledger_matches t ps"
      using True by (simp_all add: ledger_matches_def)
    from Cons.prems(1) True obtain v ps1 where
      v: "e (pr_storage_used p) = Inr v"
      and ps1: "update_profiles_storage now owner e ps = Inr ps1"
      and ps': "ps' = p\<lparr>pr_storage_used := v, pr_updated_at := Some now\<rparr> # ps1"
      by (auto split: sum.splits)
    from v used assms(3) have "v = Some (t' owner)" by simp
    moreover from Cons.IH [OF ps1 rest] have "ledger_matches t' ps1" .
    ultimately show ?thesis using ps' True by (simp add: ledger_matches_def)
  next
    case False
    from Cons.prems(2) have used: "pr_storage_used p = Some (t (pr_id p))"
      and rest: "ledger_matches t ps"
      by (simp_all add: ledger_matches_def)
    from Cons.prems(1) False obtain ps1 where
      ps1: "update_profiles_storage now owner e ps = Inr ps1"
      and ps': "ps' = p # ps1"
      by (auto split: sum.splits)
    from Cons.IH [OF ps1 rest] have "ledger_matches t' ps1" .
    then show ?thesis using ps' used assms(4) [OF False] by (simp add: ledger_matches_def)
  qed
qed

lemma add_size_Some: "add_size sz (Some t) = Inr v \<Longrightarrow> v = Some (t + sz)"
  by (auto simp: add_size_def int8_def split: if_splits)

lemma subtract_size_Some:
  "subtract_size sz (Some t) = Inr v \<Longrightarrow> sz \<le> t \<Longrightarrow> v = Some (t - sz)"
  by (auto simp: subtract_size_def int8_def split: if_splits)

text \<open>A subtraction that succeeds leaves a number that is not negative.\<close>

lemma subtract_size_floor: "subtract_size sz used = Inr v \<Longrightarrow> \<exists>n. v = Some n \<and> 0 \<le> n"
  by (cases used) (auto simp: subtract_size_def int8_def split: if_splits)

lemma add_delta_Some: "add_delta n m (Some t) = Inr v \<Longrightarrow> v = Some (t + (n - m))"
  by (auto simp: add_delta_def int8_def split: if_splits)

lemma add_step:
  assumes "update_profiles_storage now (f_owner_id r) (add_size (f_file_size r)) ps = Inr ps'"
    and "counted r" and "ledger_matches t ps"
  shows "ledger_matches (\<lambda>u. t u + contribution u r) ps'"
  by (rule update_profiles_storage_ledger [OF assms(1) assms(3)])
     (auto simp: contribution_def assms(2) dest: add_size_Some)

lemma subtract_step:
  assumes "update_profiles_storage now (f_owner_id r) (subtract_size (f_file_size r)) ps = Inr ps'"
    and "counted r" and "ledger_matches (\<lambda>u. t u + contribution u r) ps"
    and "0 \<le> t (f_owner_id r)"
  shows "ledger_matches t ps'"
  by (rule update_profiles_storage_ledger [OF assms(1) assms(3)])
     (use assms(2,4) in \<open>auto simp: contribution_def dest: subtract_size_Some\<close>)

lemma update_storage_usage_ledger:
  assumes "update_storage_usage now ev ps = Inr ps'"
    and "ledger_matches (\<lambda>u. c u + before_event ev u) ps"
    and "\<And>u. 0 \<le> c u"
  shows "ledger_matches (\<lambda>u. c u + after_event ev u) ps'"
proof (cases ev)
  case (TG_INSERT new)
  show ?thesis
  proof (cases "counted new")
    case True
    with assms(1) TG_INSERT have
      "update_profiles_storage now (f_owner_id new) (add_size (f_file_size new)) ps = Inr ps'"
      by simp
    from add_step [OF this True] assms(2) TG_INSERT show ?thesis by simp
  next
    case False
    with assms TG_INSERT show ?thesis by (simp add: contribution_def)
  qed
next
  case (TG_DELETE old)
  show ?thesis
  proof (cases "counted old")
    case True
    with assms(1) TG_DELETE have
      "update_profiles_storage now (f_owner_id old) (subtract_size (f_file_size old)) ps = Inr ps'"
      by simp
    from subtract_step [OF this True, of c] assms(2,3) TG_DELETE show ?thesis by simp
  next
    case False
    with assms TG_DELETE show ?thesis by (simp add: contribution_def)
  qed
next
  case (TG_UPDATE old new)
  have none: "\<not> counted r \<Longrightarrow> (\<lambda>u. c u + contribution u r) = c" for r
    by (simp add: contribution_def)
  show ?thesis
  proof (cases "f_owner_id new = f_owner_id old")
    case False
    from assms(1) TG_UPDATE False obtain ps1 where
      ps1: "(if counted old then
               update_profiles_storage now (f_owner_id old) (subtract_size (f_file_size old)) ps
             else Inr ps) = Inr ps1"
      and ps': "(if counted new then
               update_profiles_storage now (f_owner_id new) (add_size (f_file_size new)) ps1
             else Inr ps1) = Inr ps'"
      by (auto simp: is_distinct_from_def split: sum.splits)
    have mid: "ledger_matches c ps1"
    proof (cases "counted old")
      case True
      with ps1 have
        "update_profiles_storage now (f_owner_id old) (subtract_size (f_file_size old)) ps = Inr ps1"
        by simp
      from subtract_step [OF this True, of c] assms(2,3) TG_UPDATE show ?thesis by simp
    next
      case False
      with ps1 assms(2) TG_UPDATE none [OF False] show ?thesis by simp
    qed
    show ?thesis
    proof (cases "counted new")
      case True
      with ps' have
        "update_profiles_storage now (f_owner_id new) (add_size (f_file_size new)) ps1 = Inr ps'"
        by simp
      from add_step [OF this True mid] TG_UPDATE show ?thesis by simp
    next
      case False
      with ps' mid TG_UPDATE none [OF False] show ?thesis by simp
    qed
  next
    case same: True
    consider (both) "counted old" "counted new"
      | (deleted) "counted old" "\<not> counted new"
      | (restored) "\<not> counted old" "counted new"
      | (neither) "\<not> counted old" "\<not> counted new"
      by blast
    then show ?thesis
    proof cases
      case both
      show ?thesis
      proof (cases "f_file_size new = f_file_size old")
        case True
        with same both have "contribution u new = contribution u old" for u
          by (simp add: contribution_def)
        with assms TG_UPDATE same both True show ?thesis
          by (simp add: is_distinct_from_def)
      next
        case False
        with assms(1) TG_UPDATE same both have upd:
          "update_profiles_storage now (f_owner_id new)
             (add_delta (f_file_size new) (f_file_size old)) ps = Inr ps'"
          by (simp add: is_distinct_from_def)
        have "ledger_matches (\<lambda>u. c u + contribution u new) ps'"
          by (rule update_profiles_storage_ledger
                [OF upd, of "\<lambda>u. c u + contribution u old"])
             (use assms(2) TG_UPDATE same both in
               \<open>auto simp: contribution_def dest: add_delta_Some\<close>)
        with TG_UPDATE show ?thesis by simp
      qed
    next
      case deleted
      with assms(1) TG_UPDATE same have
        "update_profiles_storage now (f_owner_id old) (subtract_size (f_file_size old)) ps = Inr ps'"
        by (simp add: is_distinct_from_def)
      from subtract_step [OF this deleted(1), of c] assms(2,3) TG_UPDATE none [OF deleted(2)]
      show ?thesis by simp
    next
      case restored
      with assms(1) TG_UPDATE same have
        "update_profiles_storage now (f_owner_id new) (add_size (f_file_size new)) ps = Inr ps'"
        by (simp add: is_distinct_from_def)
      moreover from assms(2) TG_UPDATE none [OF restored(1)] have "ledger_matches c ps"
        by simp
      ultimately show ?thesis using add_step restored(2) TG_UPDATE by simp
    next
      case neither
      with assms TG_UPDATE same none [of old] none [of new] show ?thesis
        by (simp add: is_distinct_from_def)
    qed
  qed
qed

lemma ledger_matches_cong:
  "ledger_matches t ps \<Longrightarrow> (\<And>u. t u = t' u) \<Longrightarrow> ledger_matches t' ps"
proof -
  assume a: "ledger_matches t ps" and "\<And>u. t u = t' u"
  then have "t = t'" by blast
  with a show ?thesis by simp
qed

lemma delete_triggers_ledger:
  assumes "fire_triggers now (map TG_DELETE (filter P fs)) ps = Inr ps'"
    and "ledger_matches (\<lambda>u. c u + recomputed_usage u fs) ps"
    and "\<And>u. 0 \<le> c u"
    and "sizes_nonneg fs"
  shows "ledger_matches (\<lambda>u. c u + recomputed_usage u (filter (\<lambda>r. \<not> P r) fs)) ps'"
  using assms
proof (induction fs arbitrary: c ps)
  case Nil
  then show ?case by simp
next
  case (Cons r rs)
  from Cons.prems(4) have r: "0 \<le> f_file_size r" and rs: "sizes_nonneg rs"
    by (simp_all add: sizes_nonneg_def)
  show ?case
  proof (cases "P r")
    case True
    with Cons.prems(1) obtain ps1 where
      ps1: "update_storage_usage now (TG_DELETE r) ps = Inr ps1"
      and rest: "fire_triggers now (map TG_DELETE (filter P rs)) ps1 = Inr ps'"
      by (auto split: sum.splits)
    let ?c = "\<lambda>u. c u + recomputed_usage u rs"
    have "ledger_matches (\<lambda>u. ?c u + before_event (TG_DELETE r) u) ps"
      by (rule ledger_matches_cong [OF Cons.prems(2)]) simp
    moreover have "0 \<le> ?c u" for u
      using Cons.prems(3) recomputed_usage_nonneg [OF rs] by (simp add: add_nonneg_nonneg)
    ultimately have "ledger_matches (\<lambda>u. ?c u + after_event (TG_DELETE r) u) ps1"
      by (rule update_storage_usage_ledger [OF ps1])
    then have "ledger_matches ?c ps1" by simp
    from Cons.IH [OF rest this Cons.prems(3) rs] True show ?thesis by simp
  next
    case False
    let ?c = "\<lambda>u. c u + contribution u r"
    from False Cons.prems(1) have
      rest: "fire_triggers now (map TG_DELETE (filter P rs)) ps = Inr ps'"
      by simp
    have m: "ledger_matches (\<lambda>u. ?c u + recomputed_usage u rs) ps"
      by (rule ledger_matches_cong [OF Cons.prems(2)]) simp
    have "0 \<le> ?c u" for u
      using Cons.prems(3) contribution_nonneg [OF r] by (simp add: add_nonneg_nonneg)
    from Cons.IH [OF rest m this rs]
    have "ledger_matches (\<lambda>u. ?c u + recomputed_usage u (filter (\<lambda>r. \<not> P r) rs)) ps'" .
    then show ?thesis
      by (rule ledger_matches_cong) (use False in simp)
  qed
qed

lemma update_triggers_ledger:
  assumes "fire_triggers now (map (\<lambda>old. TG_UPDATE old (g old)) (filter P fs)) ps = Inr ps'"
    and "ledger_matches (\<lambda>u. c u + recomputed_usage u fs) ps"
    and "\<And>u. 0 \<le> c u"
    and "sizes_nonneg fs"
    and "sizes_nonneg (map g (filter P fs))"
  shows "ledger_matches
           (\<lambda>u. c u + recomputed_usage u (map (\<lambda>r. if P r then g r else r) fs)) ps'"
  using assms
proof (induction fs arbitrary: c ps)
  case Nil
  then show ?case by simp
next
  case (Cons r rs)
  from Cons.prems(4) have r: "0 \<le> f_file_size r" and rs: "sizes_nonneg rs"
    by (simp_all add: sizes_nonneg_def)
  show ?case
  proof (cases "P r")
    case True
    with Cons.prems(5) have gr: "0 \<le> f_file_size (g r)"
      and grs: "sizes_nonneg (map g (filter P rs))"
      by (simp_all add: sizes_nonneg_def)
    from True Cons.prems(1) obtain ps1 where
      ps1: "update_storage_usage now (TG_UPDATE r (g r)) ps = Inr ps1"
      and rest: "fire_triggers now (map (\<lambda>old. TG_UPDATE old (g old)) (filter P rs)) ps1 = Inr ps'"
      by (auto split: sum.splits)
    let ?c = "\<lambda>u. c u + recomputed_usage u rs"
    let ?c' = "\<lambda>u. c u + contribution u (g r)"
    have "ledger_matches (\<lambda>u. ?c u + before_event (TG_UPDATE r (g r)) u) ps"
      by (rule ledger_matches_cong [OF Cons.prems(2)]) simp
    moreover have "0 \<le> ?c u" for u
      using Cons.prems(3) recomputed_usage_nonneg [OF rs] by (simp add: add_nonneg_nonneg)
    ultimately have "ledger_matches (\<lambda>u. ?c u + after_event (TG_UPDATE r (g r)) u) ps1"
      by (rule update_storage_usage_ledger [OF ps1])
    then have m: "ledger_matches (\<lambda>u. ?c' u + recomputed_usage u rs) ps1"
      by (rule ledger_matches_cong) simp
    have "0 \<le> ?c' u" for u
      using Cons.prems(3) contribution_nonneg [OF gr] by (simp add: add_nonneg_nonneg)
    from Cons.IH [OF rest m this rs grs]
    show ?thesis
      by (rule ledger_matches_cong) (use True in simp)
  next
    case False
    let ?c = "\<lambda>u. c u + contribution u r"
    from False Cons.prems(1) have
      rest: "fire_triggers now (map (\<lambda>old. TG_UPDATE old (g old)) (filter P rs)) ps = Inr ps'"
      by simp
    from False Cons.prems(5) have grs: "sizes_nonneg (map g (filter P rs))" by simp
    have m: "ledger_matches (\<lambda>u. ?c u + recomputed_usage u rs) ps"
      by (rule ledger_matches_cong [OF Cons.prems(2)]) simp
    have "0 \<le> ?c u" for u
      using Cons.prems(3) contribution_nonneg [OF r] by (simp add: add_nonneg_nonneg)
    from Cons.IH [OF rest m this rs grs]
    show ?thesis
      by (rule ledger_matches_cong) (use False in simp)
  qed
qed

lemma insert_file_ledger:
  assumes "insert_file now new db = Inr db'"
    and "ledger_consistent db" and "sizes_nonneg (files db)"
  shows "ledger_consistent db'"
proof -
  from assms(1) obtain ps' where
    ps': "update_storage_usage now (TG_INSERT new) (profiles db) = Inr ps'"
    and db': "db' = db\<lparr>profiles := ps', files := files db @ [new]\<rparr>"
    by (auto simp: insert_file_def split: if_splits sum.splits)
  let ?c = "\<lambda>u. recomputed_usage u (files db)"
  have "ledger_matches (\<lambda>u. ?c u + before_event (TG_INSERT new) u) (profiles db)"
    using assms(2) by (simp add: ledger_consistent_def)
  moreover have "0 \<le> ?c u" for u
    by (rule recomputed_usage_nonneg [OF assms(3)])
  ultimately have "ledger_matches (\<lambda>u. ?c u + after_event (TG_INSERT new) u) ps'"
    by (rule update_storage_usage_ledger [OF ps'])
  then show ?thesis by (simp add: db' ledger_consistent_def)
qed

lemma delete_file_ledger:
  assumes "delete_file now fid db = Inr db'"
    and "ledger_consistent db" and "sizes_nonneg (files db)"
  shows "ledger_consistent db'"
proof -
  from assms(1) obtain ps' where
    ps': "fire_triggers now (map TG_DELETE (filter (\<lambda>r. f_id r = fid) (files db)))
            (profiles db) = Inr ps'"
    and db': "db' = db\<lparr>profiles := ps',
                files := filter (\<lambda>r. f_id r \<noteq> fid) (files db),
                share_links := filter (\<lambda>s. sl_file_id s \<noteq> fid) (share_links db)\<rparr>"
    by (auto simp: delete_file_def split: sum.splits)
  have "ledger_matches (\<lambda>u. 0 + recomputed_usage u (files db)) (profiles db)"
    using assms(2) by (simp add: ledger_consistent_def)
  from delete_triggers_ledger [OF ps' this _ assms(3)]
  show ?thesis by (simp add: db' ledger_consistent_def)
qed

lemma update_file_ledger:
  assumes "update_file now fid g db = Inr db'"
    and "ledger_consistent db" and "sizes_nonneg (files db)"
    and "sizes_nonneg (map (new_row now g) (filter (\<lambda>r. f_id r = fid) (files db)))"
  shows "ledger_consistent db'"
proof -
  from assms(1) obtain ps' where
    ps': "fire_triggers now
            (map (\<lambda>old. TG_UPDATE old (new_row now g old))
               (filter (\<lambda>r. f_id r = fid) (files db)))
            (profiles db) = Inr ps'"
    and db': "db' = db\<lparr>profiles := ps',
                files := map (\<lambda>r. if f_id r = fid then new_row now g r else r) (files db)\<rparr>"
    by (auto simp: update_file_def split: sum.splits)
  have "ledger_matches (\<lambda>u. 0 + recomputed_usage u (files db)) (profiles db)"
    using assms(2) by (simp add: ledger_consistent_def)
  from update_triggers_ledger [OF ps' this _ assms(3,4)]
  show ?thesis by (simp add: db' ledger_consistent_def)
qed

lemma sizes_nonneg_update:
  assumes "update_file now fid g db = Inr db'" and "sizes_nonneg (files db)"
    and "\<And>r. 0 \<le> f_file_size r \<Longrightarrow> 0 \<le> f_file_size (g r)"
  shows "sizes_nonneg (files db')
    \<and> sizes_nonneg (map (new_row now g) (filter (\<lambda>r. f_id r = fid) (files db)))"
  using assms
  by (auto simp: update_file_def sizes_nonneg_def new_row_def list_all_iff split: sum.splits)

lemma apply_op_preserves:
  assumes "apply_op now op db = Inr db'"
    and "ledger_consistent db" and "sizes_nonneg (files db)" and "op_size_nonneg op"
  shows "ledger_consistent db' \<and> sizes_nonneg (files db')"
proof (cases op)
  case (InsertFile r)
  with assms show ?thesis
    by (auto simp: insert_file_ledger)
       (auto simp: insert_file_def sizes_nonneg_def split: if_splits sum.splits)
next
  case (PermanentDelete fid)
  with assms show ?thesis
    by (auto simp: delete_file_ledger)
       (auto simp: delete_file_def sizes_nonneg_def list_all_iff split: sum.splits)
next
  case (SoftDelete fid)
  with assms have u: "update_file now fid (set_soft_deleted now) db = Inr db'" by simp
  from sizes_nonneg_update [OF u assms(3)] update_file_ledger [OF u assms(2,3)]
  show ?thesis by (simp add: set_soft_deleted_def)
next
  case (Restore fid)
  with assms have u: "update_file now fid set_restored db = Inr db'" by simp
  from sizes_nonneg_update [OF u assms(3)] update_file_ledger [OF u assms(2,3)]
  show ?thesis by (simp add: set_restored_def)
next
  case (ChangeSize fid n)
  with assms have u: "update_file now fid (\<lambda>r. r\<lparr>f_file_size := n\<rparr>) db = Inr db'"
    and n: "0 \<le> n" by simp_all
  from sizes_nonneg_update [OF u assms(3)] update_file_ledger [OF u assms(2,3)] n
  show ?thesis by simp
next
  case (TransferOwner fid v)
  with assms have u: "update_file now fid (\<lambda>r. r\<lparr>f_owner_id := v\<rparr>) db = Inr db'" by simp
  from sizes_nonneg_update [OF u assms(3)] update_file_ledger [OF u assms(2,3)]
  show ?thesis by simp
qed

text \<open>
  Claim C1, as amended. Start from a database where every account's \<open>storage_used\<close>
  is the sum of \<open>file_size\<close> over its files that are not soft-deleted, and where no
  file has a negative size. Replay any sequence of inserts, permanent deletes,
  soft-deletes, restores, size changes and owner transfers that brings in no negative
  size, each statement firing the accounting trigger for its rows (a statement that
  raises is rolled back). Then every account's \<open>storage_used\<close> is again the sum of
  \<open>file_size\<close> over its files that are not soft-deleted.
\<close>

theorem replay_ledger_consistent:
  assumes "ledger_consistent db" and "sizes_nonneg (files db)"
    and "list_all (\<lambda>(now, op). op_size_nonneg op) ops"
  shows "ledger_consistent (replay ops db)"
  using assms
proof (induction ops arbitrary: db)
  case Nil
  then show ?case by simp
next
  case (Cons x ops)
  obtain now op where x: "x = (now, op)" by (cases x)
  show ?case
  proof (cases "apply_op now op db")
    case (Inl err)
    with Cons x show ?thesis by simp
  next
    case (Inr db')
    from apply_op_preserves [OF Inr Cons.prems(1,2)] Cons.prems(3) x
    have "ledger_consistent db' \<and> sizes_nonneg (files db')" by simp
    with Cons.IH [of db'] Cons.prems(3) x Inr show ?thesis by simp
  qed
qed

theorem replay_ledger_consistent_witness:
  "ledger_consistent empty_accounts \<and> sizes_nonneg (files empty_accounts)
    \<and> list_all (\<lambda>(now, op). op_size_nonneg op) example_ops
    \<and> ledger_consistent (replay example_ops empty_accounts)
    \<and> map pr_storage_used (profiles (replay example_ops empty_accounts)) = [Some 0, Some 400]"
proof -
  have h1: "ledger_consistent empty_accounts" by code_simp
  have h2: "sizes_nonneg (files empty_accounts)" by code_simp
  have h3: "list_all (\<lambda>(now, op). op_size_nonneg op) example_ops" by code_simp
  have h4: "map pr_storage_used (profiles (replay example_ops empty_accounts))
              = [Some 0, Some 400]" by code_simp
  from replay_ledger_consistent [OF h1 h2 h3] h1 h2 h3 h4 show ?thesis by blast
qed

text \<open>
  Claim C1 as stated fails: nothing keeps \<open>file_size\<close> from being negative. Insert a
  file of size -5 and one of size 3 for an account with ledger 0, then delete the
  second: \<open>GREATEST(0, -2 - 3)\<close> leaves 0 where the sum is -5.
\<close>

theorem ledger_negative_size_counterexample:
  "ledger_consistent empty_accounts
    \<and> \<not> ledger_consistent (replay negative_size_ops empty_accounts)
    \<and> storage_used_of 1 (replay negative_size_ops empty_accounts) = [Some 0]
    \<and> recomputed_usage 1 (files (replay negative_size_ops empty_accounts)) = - 5"
  by code_simp

section \<open>Soft-delete and restore\<close>

lemma update_profiles_storage_total:
  assumes "list_all (\<lambda>v. e v = Inr (g v))
             (map pr_storage_used (filter (\<lambda>p. pr_id p = owner) ps))"
  shows "\<exists>ps'. update_profiles_storage now owner e ps = Inr ps'
           \<and> map pr_storage_used (filter (\<lambda>p. pr_id p = owner) ps')
               = map g (map pr_storage_used (filter (\<lambda>p. pr_id p = owner) ps))"
  using assms by (induction ps) auto

lemma update_profiles_storage_single:
  assumes "map pr_storage_used (filter (\<lambda>p. pr_id p = owner) ps) = [v]" and "e v = Inr w"
  shows "\<exists>ps'. update_profiles_storage now owner e ps = Inr ps'
           \<and> map pr_storage_used (filter (\<lambda>p. pr_id p = owner) ps') = [w]"
proof -
  have "list_all (\<lambda>x. e x = Inr ((\<lambda>_. w) x))
          (map pr_storage_used (filter (\<lambda>p. pr_id p = owner) ps))"
    unfolding assms(1) using assms(2) by simp
  from update_profiles_storage_total [OF this, of now] obtain ps' where
    a: "update_profiles_storage now owner e ps = Inr ps'"
    and b: "map pr_storage_used (filter (\<lambda>p. pr_id p = owner) ps')
              = map (\<lambda>_. w) (map pr_storage_used (filter (\<lambda>p. pr_id p = owner) ps))"
    by blast
  from b have "map pr_storage_used (filter (\<lambda>p. pr_id p = owner) ps') = [w]"
    unfolding assms(1) by simp
  with a show ?thesis by (intro exI [of _ ps'] conjI)
qed

lemma update_profiles_storage_ids:
  "update_profiles_storage now owner e ps = Inr ps' \<Longrightarrow> map pr_id ps' = map pr_id ps"
  by (induction ps arbitrary: ps') (auto split: if_splits sum.splits)

lemma update_profiles_storage_defined:
  assumes "update_profiles_storage now owner e ps = Inr ps'"
    and "p \<in> set ps" and "pr_id p = owner"
  shows "\<exists>w. e (pr_storage_used p) = Inr w"
  using assms by (induction ps arbitrary: ps') (auto split: if_splits sum.splits)

lemma filter_id_single:
  "distinct (map f_id fs) \<Longrightarrow> r \<in> set fs \<Longrightarrow> filter (\<lambda>x. f_id x = f_id r) fs = [r]"
proof (induction fs)
  case Nil
  then show ?case by simp
next
  case (Cons a fs)
  show ?case
  proof (cases "a = r")
    case True
    with Cons.prems have "f_id r \<notin> f_id ` set fs" by simp
    then have "\<forall>x \<in> set fs. f_id x \<noteq> f_id r" by (metis imageI)
    then have "filter (\<lambda>x. f_id x = f_id r) fs = []" by (simp add: filter_empty_conv)
    with True show ?thesis by simp
  next
    case False
    with Cons.prems have "r \<in> set fs" "f_id a \<noteq> f_id r" by auto
    with Cons show ?thesis by simp
  qed
qed

lemma update_file_single:
  assumes "distinct (map f_id (files db))" and "r \<in> set (files db)"
  shows "update_file now (f_id r) g db =
     (case update_storage_usage now (TG_UPDATE r (new_row now g r)) (profiles db) of
        Inl err \<Rightarrow> Inl err
      | Inr ps \<Rightarrow>
          Inr (db\<lparr>profiles := ps,
                  files := map (\<lambda>x. if f_id x = f_id r then new_row now g x else x)
                             (files db)\<rparr>))"
  using filter_id_single [OF assms]
  by (simp add: update_file_def split: sum.splits)

lemma map_update_ids:
  assumes "\<And>x. f_id (h x) = f_id x"
  shows "map f_id (map (\<lambda>x. if P x then h x else x) fs) = map f_id fs"
  using assms by (induction fs) auto

lemma map_update_member:
  assumes "r \<in> set fs" and "P r"
  shows "h r \<in> set (map (\<lambda>x. if P x then h x else x) fs)"
  using assms by (induction fs) auto

text \<open>
  Claim C9, as amended. Take a file that is not soft-deleted, in a table whose ids are
  distinct (the primary key), and let the owner's \<open>storage_used\<close> be \<open>s\<close>, a
  \<open>BIGINT\<close> that is at least the size of the file. Then soft-deleting the file and
  restoring it leaves the owner's \<open>storage_used\<close> at \<open>s\<close>: the subtraction is not
  floored, so the addition cancels it.
\<close>

theorem soft_delete_restore_ledger:
  assumes "distinct (map f_id (files db))"
    and "r \<in> set (files db)" and "counted r"
    and "storage_used_of (f_owner_id r) db = [Some s]"
    and "f_file_size r \<le> s" and "int8_range s"
  shows "storage_used_of (f_owner_id r)
           (replay [(t1, SoftDelete (f_id r)), (t2, Restore (f_id r))] db) = [Some s]"
proof -
  let ?u = "f_owner_id r"
  let ?sd = "new_row t1 (set_soft_deleted t1)"
  let ?rs = "new_row t2 set_restored"
  have restored: "counted (?rs x)" "f_owner_id (?rs x) = f_owner_id x"
    "f_file_size (?rs x) = f_file_size x" "f_id (?rs x) = f_id x" for x
    by (simp_all add: new_row_def set_restored_def counted_def coalesce_def)
  have deleted: "\<not> counted (?sd x)" "f_owner_id (?sd x) = f_owner_id x"
    "f_file_size (?sd x) = f_file_size x" "f_id (?sd x) = f_id x" for x
    by (simp_all add: new_row_def set_soft_deleted_def counted_def coalesce_def)
  show ?thesis
  proof (cases "update_storage_usage t1 (TG_UPDATE r (?sd r)) (profiles db)")
    case (Inl err)
    then have sd: "apply_op t1 (SoftDelete (f_id r)) db = Inl err"
      by (simp add: update_file_single [OF assms(1,2)])
    have "update_storage_usage t2 (TG_UPDATE r (?rs r)) (profiles db) = Inr (profiles db)"
      using assms(3) restored by (simp add: is_distinct_from_def)
    then have "apply_op t2 (Restore (f_id r)) db
      = Inr (db\<lparr>profiles := profiles db,
                files := map (\<lambda>x. if f_id x = f_id r then ?rs x else x) (files db)\<rparr>)"
      by (simp add: update_file_single [OF assms(1,2)])
    with sd assms(4) show ?thesis by (simp add: storage_used_of_def)
  next
    case (Inr ps1)
    let ?fs1 = "map (\<lambda>x. if f_id x = f_id r then ?sd x else x) (files db)"
    let ?db1 = "db\<lparr>profiles := ps1, files := ?fs1\<rparr>"
    from Inr have sd: "apply_op t1 (SoftDelete (f_id r)) db = Inr ?db1"
      by (simp add: update_file_single [OF assms(1,2)])
    from Inr assms(3) deleted have upd1:
      "update_profiles_storage t1 ?u (subtract_size (f_file_size r)) (profiles db) = Inr ps1"
      by (simp add: is_distinct_from_def)
    have sub: "subtract_size (f_file_size r) (Some s) = Inr (Some (s - f_file_size r))"
    proof -
      from assms(4) obtain p where
        p: "filter (\<lambda>p. pr_id p = ?u) (profiles db) = [p]" "pr_storage_used p = Some s"
        by (auto simp: storage_used_of_def map_eq_Cons_conv)
      from p(1) have "p \<in> set (filter (\<lambda>p. pr_id p = ?u) (profiles db))" by simp
      then have "p \<in> set (profiles db)" "pr_id p = ?u" by simp_all
      with p(2) update_profiles_storage_defined [OF upd1, of p]
      obtain v where "subtract_size (f_file_size r) (Some s) = Inr v" by auto
      then show ?thesis using assms(5)
        by (auto simp: subtract_size_def int8_def split: if_splits)
    qed
    from assms(4) have used0:
      "map pr_storage_used (filter (\<lambda>p. pr_id p = ?u) (profiles db)) = [Some s]"
      by (simp add: storage_used_of_def)
    from update_profiles_storage_single
           [where e = "subtract_size (f_file_size r)" and v = "Some s", OF used0 sub, of t1] upd1
    have used1: "map pr_storage_used (filter (\<lambda>p. pr_id p = ?u) ps1) = [Some (s - f_file_size r)]"
      by simp
    have add: "add_size (f_file_size r) (Some (s - f_file_size r)) = Inr (Some s)"
      using assms(6) by (simp add: add_size_def int8_def)
    from update_profiles_storage_single
           [where e = "add_size (f_file_size r)" and v = "Some (s - f_file_size r)",
            OF used1 add, of t2] obtain ps2 where
      upd2: "update_profiles_storage t2 ?u (add_size (f_file_size r)) ps1 = Inr ps2"
      and used2: "map pr_storage_used (filter (\<lambda>p. pr_id p = ?u) ps2) = [Some s]"
      by (elim exE conjE)
    have f1: "files ?db1 = ?fs1" by simp
    have ids1: "map f_id ?fs1 = map f_id (files db)"
      by (rule map_update_ids) (rule deleted(4))
    have d1: "distinct (map f_id (files ?db1))"
      unfolding f1 ids1 by (rule assms(1))
    have r1: "?sd r \<in> set (files ?db1)"
      unfolding f1 by (rule map_update_member [OF assms(2)]) simp
    have trig2: "update_storage_usage t2 (TG_UPDATE (?sd r) (?rs (?sd r))) ps1 = Inr ps2"
      using upd2 deleted restored by (simp add: is_distinct_from_def)
    have p1: "profiles ?db1 = ps1" by simp
    have "update_file t2 (f_id (?sd r)) set_restored ?db1 =
            Inr (?db1\<lparr>profiles := ps2,
                   files := map (\<lambda>x. if f_id x = f_id (?sd r) then ?rs x else x)
                              (files ?db1)\<rparr>)"
      unfolding update_file_single [OF d1 r1] p1 trig2 by simp
    then have rs: "apply_op t2 (Restore (f_id r)) ?db1 =
            Inr (?db1\<lparr>profiles := ps2,
                   files := map (\<lambda>x. if f_id x = f_id r then ?rs x else x)
                              (files ?db1)\<rparr>)"
      by (simp only: deleted(4) apply_op.simps)
    have "replay [(t1, SoftDelete (f_id r)), (t2, Restore (f_id r))] db =
            ?db1\<lparr>profiles := ps2,
                   files := map (\<lambda>x. if f_id x = f_id r then ?rs x else x) (files ?db1)\<rparr>"
      by (simp only: replay.simps sd rs sum.case)
    then show ?thesis using used2 by (simp add: storage_used_of_def)
  qed
qed

theorem soft_delete_restore_ledger_witness:
  "distinct (map f_id (files settled_account))
    \<and> example_file 10 1 1000 (Some False) \<in> set (files settled_account)
    \<and> counted (example_file 10 1 1000 (Some False))
    \<and> storage_used_of 1 settled_account = [Some 1500]
    \<and> int8_range 1500
    \<and> storage_used_of 1 (replay [(5, SoftDelete 10), (6, Restore 10)] settled_account)
        = [Some 1500]"
proof -
  let ?r = "example_file 10 1 1000 (Some False)"
  have h1: "distinct (map f_id (files settled_account))" by code_simp
  have h2: "?r \<in> set (files settled_account)" by code_simp
  have h3: "counted ?r" by code_simp
  have h4: "storage_used_of (f_owner_id ?r) settled_account = [Some 1500]" by code_simp
  have h5: "f_file_size ?r \<le> 1500" by code_simp
  have h6: "int8_range 1500" by code_simp
  have id: "f_id ?r = 10" and owner: "f_owner_id ?r = 1" by code_simp+
  from soft_delete_restore_ledger [OF h1 h2 h3 h4 h5 h6, of 5 6] h1 h2 h3 h4 h6
  show ?thesis unfolding id owner by blast
qed

text \<open>
  Claim C9 as stated fails when the ledger is below the size of the file: the
  soft-delete leaves \<open>GREATEST(0, 50 - 100) = 0\<close> and the restore adds the whole 100.
\<close>

theorem soft_delete_restore_floor_counterexample:
  "example_file 10 1 100 (Some False) \<in> set (files drifted_account)
    \<and> counted (example_file 10 1 100 (Some False))
    \<and> storage_used_of 1 drifted_account = [Some 50]
    \<and> storage_used_of 1 (replay [(1, SoftDelete 10), (2, Restore 10)] drifted_account)
        = [Some 100]"
  by code_simp

text \<open>
  Claim C2 fails on the size-change branch of the trigger, which adds
  \<open>NEW.file_size - OLD.file_size\<close> with no floor: with the ledger at 50 and a file of
  size 100 that shrinks to 10, \<open>storage_used\<close> becomes -40.
\<close>

theorem size_decrease_below_zero:
  "storage_used_of 1 drifted_account = [Some 50]
    \<and> storage_used_of 1 (replay [(1, ChangeSize 10 10)] drifted_account) = [Some (- 40)]"
  by code_simp

section \<open>Redeeming a share link\<close>

text \<open>The conditions of \<open>get_file_by_token\<close>, read in two-valued logic.\<close>

lemma sql_and_Some: "sql_and (Some a) (Some b) = Some (a \<and> b)"
  by (cases a; cases b) simp_all

lemma sql_and_None_left: "sql_and None b = (if b = Some False then Some False else None)"
proof (cases b)
  case None
  then show ?thesis by simp
next
  case (Some x)
  then show ?thesis by (cases x) simp_all
qed

lemma sql_and_None_right: "sql_and a None = (if a = Some False then Some False else None)"
proof (cases a)
  case None
  then show ?thesis by simp
next
  case (Some x)
  then show ?thesis by (cases x) simp_all
qed

lemmas sql_and_None = sql_and_None_left sql_and_None_right

lemma holds_lookup:
  "holds (sql_and (sql_eq (Some a) p) (sql_eq b (Some True))) = (Some a = p \<and> b = Some True)"
  by (cases p; cases b) (auto simp: holds_def sql_eq_def sql_and_Some sql_and_None)

lemma holds_expired:
  "holds (sql_and (is_not_null e) (sql_lt e (Some now))) = (\<exists>t. e = Some t \<and> t < now)"
  by (cases e) (auto simp: holds_def sql_lt_def is_not_null_def sql_and_Some sql_and_None)

lemma holds_password:
  "holds (sql_and (is_not_null pw) (sql_ne pw given))
     = (\<exists>p q. pw = Some p \<and> given = Some q \<and> p \<noteq> q)"
  by (cases pw; cases given)
     (auto simp: holds_def sql_ne_def is_not_null_def sql_and_Some sql_and_None)

lemma holds_limit:
  "holds (sql_and (is_not_null l) (sql_ge c l))
     = (\<exists>n k. l = Some n \<and> c = Some k \<and> n \<le> k)"
  by (cases l; cases c)
     (auto simp: holds_def sql_ge_def is_not_null_def sql_and_Some sql_and_None)

text \<open>No name of its statements is both a variable of the function and a column.\<close>

lemma get_file_by_token_names:
  "\<not> ambiguous get_file_by_token_vars share_links_columns [''token'', ''p_token'', ''is_active'']"
  "\<not> ambiguous get_file_by_token_vars share_links_columns [''download_count'', ''id'']"
  by code_simp+

lemma get_file_by_token_unfold:
  "get_file_by_token now p_token p_password db =
     (case find (\<lambda>s. holds (sql_and (sql_eq (Some (sl_token s)) p_token)
                                     (sql_eq (sl_is_active s) (Some True))))
             (share_links db) of
        None \<Rightarrow> (Inl InvalidToken, db)
      | Some sl \<Rightarrow>
          if holds (sql_and (is_not_null (sl_expires_at sl))
                            (sql_lt (sl_expires_at sl) (Some now)))
          then (Inl Expired, db)
          else if holds (sql_and (is_not_null (sl_password sl))
                                 (sql_ne (sl_password sl) p_password))
          then (Inl InvalidPassword, db)
          else if holds (sql_and (is_not_null (sl_download_limit sl))
                                 (sql_ge (sl_download_count sl) (sl_download_limit sl)))
          then (Inl LimitReached, db)
          else
            (case increment_download_count (sl_id sl) (share_links db) of
               Inl err \<Rightarrow> (Inl err, db)
             | Inr links \<Rightarrow>
                if map shared
                     (filter (\<lambda>f. f_id f = sl_file_id sl \<and> counted f) (files db)) = []
                then (Inl FileUnavailable, db\<lparr>share_links := links\<rparr>)
                else (Inr (map shared
                             (filter (\<lambda>f. f_id f = sl_file_id sl \<and> counted f) (files db))),
                      db\<lparr>share_links := links\<rparr>)))"
  unfolding get_file_by_token_def Let_def
  by (simp add: get_file_by_token_names split del: if_split
           cong: if_cong option.case_cong sum.case_cong)

lemma found_files:
  "(if map shared (filter (\<lambda>f. f_id f = fid \<and> counted f) fs) = [] then a else b)
     = (if \<exists>f \<in> set fs. f_id f = fid \<and> counted f then b else a)"
  by (auto simp: filter_empty_conv)

text \<open>What the increment statement stores: one more for the rows of the link.\<close>

lemma increment_download_count_counts:
  "increment_download_count lid links = Inr links' \<Longrightarrow>
     map sl_download_count links' =
       map (\<lambda>s. if sl_id s = lid
                then (case sl_download_count s of None \<Rightarrow> None | Some c \<Rightarrow> Some (c + 1))
                else sl_download_count s) links"
proof (induction links arbitrary: links')
  case Nil
  then show ?case by simp
next
  case (Cons s links)
  show ?case
  proof (cases "sl_id s = lid")
    case True
    with Cons.prems obtain c rest where
      c: "int4_add (sl_download_count s) (Some 1) = Inr c"
      and rest: "increment_download_count lid links = Inr rest"
      and links': "links' = s\<lparr>sl_download_count := c\<rparr> # rest"
      by (auto split: sum.splits)
    from c have "c = (case sl_download_count s of None \<Rightarrow> None | Some k \<Rightarrow> Some (k + 1))"
      by (cases "sl_download_count s") (auto simp: int4_def split: if_splits)
    with Cons.IH [OF rest] links' True show ?thesis by simp
  next
    case False
    with Cons.prems obtain rest where
      rest: "increment_download_count lid links = Inr rest" and links': "links' = s # rest"
      by (auto split: sum.splits)
    with Cons.IH [OF rest] False show ?thesis by simp
  qed
qed

lemma increment_download_count_error:
  "increment_download_count lid links = Inl err \<Longrightarrow> err = NumericValueOutOfRange"
proof (induction links)
  case Nil
  then show ?case by simp
next
  case (Cons s links)
  then show ?case
    by (cases "sl_download_count s")
       (auto simp: int4_def split: if_splits sum.splits)
qed

text \<open>After the four guards: the increment, then the file.\<close>

lemma get_file_by_token_passed:
  assumes "find (\<lambda>s. Some (sl_token s) = p_token \<and> sl_is_active s = Some True)
             (share_links db) = Some sl"
    and "\<not> (\<exists>t. sl_expires_at sl = Some t \<and> t < now)"
    and "\<not> (\<exists>p q. sl_password sl = Some p \<and> p_password = Some q \<and> p \<noteq> q)"
    and "\<not> (\<exists>n k. sl_download_limit sl = Some n \<and> sl_download_count sl = Some k \<and> n \<le> k)"
    and "increment_download_count (sl_id sl) (share_links db) = Inr links"
  shows "get_file_by_token now p_token p_password db =
     (if \<exists>f \<in> set (files db). f_id f = sl_file_id sl \<and> counted f
      then (Inr (map shared (filter (\<lambda>f. f_id f = sl_file_id sl \<and> counted f) (files db))),
            db\<lparr>share_links := links\<rparr>)
      else (Inl FileUnavailable, db\<lparr>share_links := links\<rparr>))"
  unfolding get_file_by_token_unfold holds_lookup holds_expired holds_password holds_limit
    found_files
  by (simp only: assms(1) assms(5) option.case sum.case
        if_not_P [OF assms(2)] if_not_P [OF assms(3)] if_not_P [OF assms(4)])

text \<open>A caller who gives no password is never told that the password is wrong.\<close>

lemma get_file_by_token_no_password:
  "fst (get_file_by_token now p_token None db) \<noteq> Inl InvalidPassword"
  unfolding get_file_by_token_unfold holds_lookup holds_expired holds_password holds_limit
    found_files
  by (auto split: option.splits sum.splits dest: increment_download_count_error)

text \<open>
  The guards as the code evaluates them, in two-valued logic: no active link has the
  token; else \<open>expires_at\<close> is set and in the past; else the link has a password, the
  caller gave one and the two differ; else \<open>download_limit\<close> is set and
  \<open>download_count\<close> has reached it; and only then the increment and the file.
\<close>

lemma get_file_by_token_guard_order:
  "get_file_by_token now p_token p_password db =
     (case find (\<lambda>s. Some (sl_token s) = p_token \<and> sl_is_active s = Some True)
             (share_links db) of
        None \<Rightarrow> (Inl InvalidToken, db)
      | Some sl \<Rightarrow>
          if \<exists>t. sl_expires_at sl = Some t \<and> t < now then (Inl Expired, db)
          else if \<exists>p q. sl_password sl = Some p \<and> p_password = Some q \<and> p \<noteq> q
          then (Inl InvalidPassword, db)
          else if \<exists>n k. sl_download_limit sl = Some n \<and> sl_download_count sl = Some k \<and> n \<le> k
          then (Inl LimitReached, db)
          else
            (case increment_download_count (sl_id sl) (share_links db) of
               Inl err \<Rightarrow> (Inl err, db)
             | Inr links \<Rightarrow>
                if \<exists>f \<in> set (files db). f_id f = sl_file_id sl \<and> counted f
                then (Inr (map shared
                             (filter (\<lambda>f. f_id f = sl_file_id sl \<and> counted f) (files db))),
                      db\<lparr>share_links := links\<rparr>)
                else (Inl FileUnavailable, db\<lparr>share_links := links\<rparr>)))
    \<and> (\<forall>sl t. find (\<lambda>s. Some (sl_token s) = p_token \<and> sl_is_active s = Some True)
                  (share_links db) = Some sl
              \<longrightarrow> sl_expires_at sl = Some t \<longrightarrow> t < now
              \<longrightarrow> get_file_by_token now p_token p_password db = (Inl Expired, db))"
proof (intro conjI allI impI)
  show order: "get_file_by_token now p_token p_password db =
     (case find (\<lambda>s. Some (sl_token s) = p_token \<and> sl_is_active s = Some True)
             (share_links db) of
        None \<Rightarrow> (Inl InvalidToken, db)
      | Some sl \<Rightarrow>
          if \<exists>t. sl_expires_at sl = Some t \<and> t < now then (Inl Expired, db)
          else if \<exists>p q. sl_password sl = Some p \<and> p_password = Some q \<and> p \<noteq> q
          then (Inl InvalidPassword, db)
          else if \<exists>n k. sl_download_limit sl = Some n \<and> sl_download_count sl = Some k \<and> n \<le> k
          then (Inl LimitReached, db)
          else
            (case increment_download_count (sl_id sl) (share_links db) of
               Inl err \<Rightarrow> (Inl err, db)
             | Inr links \<Rightarrow>
                if \<exists>f \<in> set (files db). f_id f = sl_file_id sl \<and> counted f
                then (Inr (map shared
                             (filter (\<lambda>f. f_id f = sl_file_id sl \<and> counted f) (files db))),
                      db\<lparr>share_links := links\<rparr>)
                else (Inl FileUnavailable, db\<lparr>share_links := links\<rparr>)))"
    unfolding get_file_by_token_unfold holds_lookup holds_expired holds_password holds_limit
      found_files ..
  fix sl t
  assume "find (\<lambda>s. Some (sl_token s) = p_token \<and> sl_is_active s = Some True)
            (share_links db) = Some sl"
    and "sl_expires_at sl = Some t" and "t < now"
  then show "get_file_by_token now p_token p_password db = (Inl Expired, db)"
    unfolding order by simp
qed

lemma get_file_by_token_guard_order_examples:
  "get_file_by_token 100 (Some ''nothing'') None sharing_db = (Inl InvalidToken, sharing_db)
    \<and> get_file_by_token 100 (Some ''off'') None sharing_db = (Inl InvalidToken, sharing_db)
    \<and> get_file_by_token 100 (Some ''old'') (Some ''bad'') sharing_db = (Inl Expired, sharing_db)
    \<and> get_file_by_token 100 (Some ''secret'') (Some ''bad'') sharing_db
        = (Inl InvalidPassword, sharing_db)
    \<and> get_file_by_token 100 (Some ''full'') None sharing_db = (Inl LimitReached, sharing_db)
    \<and> fst (get_file_by_token 100 (Some ''secret'') (Some ''pw'') sharing_db)
        = Inr [shared (example_file 10 1 1000 (Some False))]"
proof -
  have "get_file_by_token 100 (Some ''nothing'') None sharing_db = (Inl InvalidToken, sharing_db)"
    by (rule trans [OF get_file_by_token_guard_order [THEN conjunct1]])
       (simp add: sharing_db_def example_link_def)
  moreover
  have "get_file_by_token 100 (Some ''off'') None sharing_db = (Inl InvalidToken, sharing_db)"
    by (rule trans [OF get_file_by_token_guard_order [THEN conjunct1]])
       (simp add: sharing_db_def example_link_def)
  moreover
  have "get_file_by_token 100 (Some ''old'') (Some ''bad'') sharing_db
          = (Inl Expired, sharing_db)"
    by (rule trans [OF get_file_by_token_guard_order [THEN conjunct1]])
       (simp add: sharing_db_def example_link_def)
  moreover
  have "get_file_by_token 100 (Some ''secret'') (Some ''bad'') sharing_db
          = (Inl InvalidPassword, sharing_db)"
    by (rule trans [OF get_file_by_token_guard_order [THEN conjunct1]])
       (simp add: sharing_db_def example_link_def)
  moreover
  have "get_file_by_token 100 (Some ''full'') None sharing_db = (Inl LimitReached, sharing_db)"
    by (rule trans [OF get_file_by_token_guard_order [THEN conjunct1]])
       (simp add: sharing_db_def example_link_def)
  moreover
  have "fst (get_file_by_token 100 (Some ''secret'') (Some ''pw'') sharing_db)
          = Inr [shared (example_file 10 1 1000 (Some False))]"
    by (rule trans [OF arg_cong [where f = fst, OF get_file_by_token_guard_order [THEN conjunct1]]])
       (simp add: sharing_db_def example_link_def example_file_def int4_def int4_range_def
          counted_def coalesce_def)
  ultimately show ?thesis by (intro conjI)
qed

text \<open>
  Claim C5 fails at its third guard, by the defect of C4: the password guard does not
  stop a caller who gives no password, so the guard after it answers. The link
  \<open>locked\<close> has the password \<open>pw\<close> and has reached its limit. Redeemed with a wrong
  password it fails with \<open>InvalidPassword\<close>, as the order demands; redeemed with no
  password it fails with \<open>LimitReached\<close>.
\<close>

theorem missing_password_skips_guard:
  "sl_password (example_link 20 10 ''locked'' (Some ''pw'') None (Some 1) (Some 1) (Some True))
      = Some ''pw''
    \<and> get_file_by_token 100 (Some ''locked'') (Some ''bad'') locked_db
        = (Inl InvalidPassword, locked_db)
    \<and> get_file_by_token 100 (Some ''locked'') None locked_db = (Inl LimitReached, locked_db)"
  by code_simp

text \<open>
  Claim C4 fails for a caller who gives no password: \<open>sl.password <> p_password\<close> is
  NULL when \<open>p_password\<close> is NULL, so the \<open>IF\<close> does not raise. The link \<open>secret\<close> is
  protected by the password \<open>pw\<close>; redeemed with no password it hands out the file
  and uses up the link's one download.
\<close>

theorem missing_password_accepted:
  "sl_password (example_link 21 10 ''secret'' (Some ''pw'') None (Some 1) (Some 0) (Some True))
      = Some ''pw''
    \<and> fst (call (get_file_by_token 100 (Some ''secret'') None) sharing_db)
        = Inr [shared (example_file 10 1 1000 (Some False))]
    \<and> map sl_download_count
         (share_links (snd (call (get_file_by_token 100 (Some ''secret'') None) sharing_db)))
        = [Some 0, Some 1, Some 1, Some 1, Some 0, Some 0]"
  by code_simp

text \<open>
  Claim C8, as amended. When redemption passes the token, expiry, password and limit
  guards and the increment statement succeeds, but no file that is not soft-deleted
  has the link's \<open>file_id\<close>, the function raises \<open>FileUnavailable\<close>. At that point the
  increment has run: in the function's own state every row of the link counts one
  more. The exception then aborts the call and the increment is undone with it: the
  caller gets \<open>FileUnavailable\<close> and the database it had before, so the failed
  redemption does not use up a download.
\<close>

theorem unavailable_file_increment_rolled_back:
  assumes "find (\<lambda>s. Some (sl_token s) = p_token \<and> sl_is_active s = Some True)
             (share_links db) = Some sl"
    and "\<not> (\<exists>t. sl_expires_at sl = Some t \<and> t < now)"
    and "\<not> (\<exists>p q. sl_password sl = Some p \<and> p_password = Some q \<and> p \<noteq> q)"
    and "\<not> (\<exists>n k. sl_download_limit sl = Some n \<and> sl_download_count sl = Some k \<and> n \<le> k)"
    and "increment_download_count (sl_id sl) (share_links db) = Inr links"
    and "\<not> (\<exists>f \<in> set (files db). f_id f = sl_file_id sl \<and> counted f)"
  shows "get_file_by_token now p_token p_password db
           = (Inl FileUnavailable, db\<lparr>share_links := links\<rparr>)
    \<and> map sl_download_count links =
        map (\<lambda>s. if sl_id s = sl_id sl
                 then (case sl_download_count s of None \<Rightarrow> None | Some c \<Rightarrow> Some (c + 1))
                 else sl_download_count s) (share_links db)
    \<and> call (get_file_by_token now p_token p_password) db = (Inl FileUnavailable, db)"
proof -
  from get_file_by_token_passed [OF assms(1-5)] assms(6)
  have body: "get_file_by_token now p_token p_password db
                = (Inl FileUnavailable, db\<lparr>share_links := links\<rparr>)"
    by simp
  then have "call (get_file_by_token now p_token p_password) db = (Inl FileUnavailable, db)"
    by (simp add: call_def)
  with body increment_download_count_counts [OF assms(5)] show ?thesis by simp
qed

theorem unavailable_file_increment_rolled_back_witness:
  "get_file_by_token 100 (Some ''gone'') None sharing_db
      = (Inl FileUnavailable,
         sharing_db\<lparr>share_links :=
           (share_links sharing_db)
             [4 := example_link 24 11 ''gone'' None None (Some 2) (Some 1) (Some True)]\<rparr>)
    \<and> call (get_file_by_token 100 (Some ''gone'') None) sharing_db
        = (Inl FileUnavailable, sharing_db)"
proof -
  let ?sl = "example_link 24 11 ''gone'' None None (Some 2) (Some 0) (Some True)"
  let ?links = "(share_links sharing_db)
       [4 := example_link 24 11 ''gone'' None None (Some 2) (Some 1) (Some True)]"
  have h1: "find (\<lambda>s. Some (sl_token s) = Some ''gone'' \<and> sl_is_active s = Some True)
              (share_links sharing_db) = Some ?sl"
    by (simp add: sharing_db_def example_link_def)
  have h2: "\<not> (\<exists>t. sl_expires_at ?sl = Some t \<and> t < 100)"
    by (simp add: example_link_def)
  have h3: "\<not> (\<exists>p q. sl_password ?sl = Some p \<and> (None :: string option) = Some q \<and> p \<noteq> q)"
    by simp
  have h4: "\<not> (\<exists>n k. sl_download_limit ?sl = Some n \<and> sl_download_count ?sl = Some k \<and> n \<le> k)"
    by (simp add: example_link_def)
  have h5: "increment_download_count (sl_id ?sl) (share_links sharing_db) = Inr ?links"
    by code_simp
  have h6: "\<not> (\<exists>f \<in> set (files sharing_db). f_id f = sl_file_id ?sl \<and> counted f)"
    by (simp add: sharing_db_def example_link_def example_file_def counted_def coalesce_def)
  from unavailable_file_increment_rolled_back [OF h1 h2 h3 h4 h5 h6]
  show ?thesis by simp
qed

text \<open>
  Claim C8 as stated fails: after the failed redemption of the link \<open>gone\<close> every
  \<open>download_count\<close> is what it was, the link's own still 0.
\<close>

theorem unavailable_file_count_counterexample:
  "fst (call (get_file_by_token 100 (Some ''gone'') None) sharing_db) = Inl FileUnavailable
    \<and> map sl_download_count (share_links sharing_db)
        = [Some 0, Some 0, Some 1, Some 1, Some 0, Some 0]
    \<and> map sl_download_count
         (share_links (snd (call (get_file_by_token 100 (Some ''gone'') None) sharing_db)))
        = [Some 0, Some 0, Some 1, Some 1, Some 0, Some 0]"
  by code_simp

section \<open>The ownership guard and the names of the functions\<close>

text \<open>
  \<open>soft_delete_file\<close> and \<open>permanently_delete_file\<close> declare \<open>file_path\<close> as a column of
  \<open>RETURNS TABLE\<close> and read the column \<open>file_path\<close> of \<open>public.files\<close> in their first
  statement; \<open>rename_file\<close> does the same with \<open>name\<close> in its \<open>RETURNING\<close> list, and
  \<open>create_share_link\<close> with \<open>token\<close> and \<open>expires_at\<close>. \<open>restore_file\<close> has no such name.
\<close>

lemma ambiguous_names:
  "ambiguous soft_delete_file_vars files_columns
     [''owner_id'', ''file_path'', ''id'', ''p_file_id'']"
  "ambiguous permanently_delete_file_vars files_columns
     [''owner_id'', ''file_path'', ''id'', ''p_file_id'']"
  "ambiguous rename_file_vars files_columns
     [''p_new_name'', ''p_new_original_name'', ''original_name'', ''id'', ''p_file_id'',
      ''id'', ''name'']"
  "ambiguous create_share_link_vars share_links_columns [''id'', ''token'', ''expires_at'']"
  by code_simp+

lemma unambiguous_names:
  "\<not> ambiguous rename_file_vars files_columns [''owner_id'', ''id'', ''p_file_id'']"
  "\<not> ambiguous restore_file_vars files_columns [''owner_id'', ''id'', ''p_file_id'']"
  "\<not> ambiguous restore_file_vars files_columns [''id'', ''p_file_id'']"
  "\<not> ambiguous create_share_link_vars files_columns [''owner_id'', ''id'', ''p_file_id'']"
  by code_simp+

text \<open>
  Where the first statement is accepted, a missing file is reported before the caller
  is looked at, a caller who is not the owner is refused, and nothing has been written
  when either exception is raised.
\<close>

lemma ownership_guard_not_found:
  assumes "select_file p_file_id (files db) = None"
  shows "rename_file uid now p_file_id p_new_name p_new_original_name db = (Inl NotFound, db)"
    and "restore_file uid now p_file_id db = (Inl NotFound, db)"
    and "create_share_link uid now random_bytes random_uuid p_file_id p_expires_hours
           p_password p_download_limit db = (Inl NotFound, db)"
  using assms
  by (simp_all add: rename_file_def restore_file_def create_share_link_def unambiguous_names)

lemma ownership_guard_not_authorized:
  assumes "select_file p_file_id (files db) = Some r" and "uid \<noteq> Some (f_owner_id r)"
  shows "rename_file uid now p_file_id p_new_name p_new_original_name db
           = (Inl NotAuthorized, db)"
    and "restore_file uid now p_file_id db = (Inl NotAuthorized, db)"
    and "create_share_link uid now random_bytes random_uuid p_file_id p_expires_hours
           p_password p_download_limit db = (Inl NotAuthorized, db)"
  using assms
  by (auto simp: rename_file_def restore_file_def create_share_link_def unambiguous_names
        is_distinct_from_def)

text \<open>
  Claim C7 fails for soft-delete and permanent delete: whatever the file and the
  caller, the first statement of \<open>soft_delete_file\<close> and of \<open>permanently_delete_file\<close> is
  rejected (column reference \<open>file_path\<close> is ambiguous), so neither \<open>NotFound\<close> nor
  \<open>NotAuthorized\<close> is ever raised by them. Nothing is written.
\<close>

theorem delete_functions_ambiguous:
  "soft_delete_file uid now p_file_id db = (Inl AmbiguousColumn, db)
    \<and> permanently_delete_file uid now p_file_id db = (Inl AmbiguousColumn, db)"
  by (simp add: soft_delete_file_def permanently_delete_file_def ambiguous_names)

text \<open>
  \<open>rename_file\<close> and \<open>create_share_link\<close> get past the guard, but their writing
  statement is rejected for its \<open>RETURNING\<close> names: they never return a row either.
\<close>

lemma rename_file_never_returns:
  "\<exists>err. rename_file uid now p_file_id p_new_name p_new_original_name db = (Inl err, db)"
  by (auto simp: rename_file_def ambiguous_names split: option.splits)

lemma create_share_link_never_returns:
  "\<exists>err. create_share_link uid now random_bytes random_uuid p_file_id p_expires_hours
           p_password p_download_limit db = (Inl err, db)"
  by (auto simp: create_share_link_def Let_def ambiguous_names split: option.splits)

section \<open>Tokens of share links\<close>

lemma insert_share_link_tokens:
  assumes "insert_share_link new db = Inr db'"
  shows "share_links db' = share_links db @ [new]"
    and "sl_token new \<notin> set (map sl_token (share_links db))"
  using assms by (auto simp: insert_share_link_def split: if_splits)

text \<open>The \<open>INSERT\<close> of a row whose token is already stored is rejected.\<close>

lemma insert_share_link_collision:
  "sl_token new \<in> set (map sl_token (share_links db))
     \<Longrightarrow> insert_share_link new db = Inl UniqueViolation"
  by (simp add: insert_share_link_def)

text \<open>
  Claim C6 fails: \<open>create_share_link\<close> never stores a link, whatever token it draws.
  Its \<open>INSERT\<close> ends in \<open>RETURNING id, token, expires_at\<close>, and \<open>token\<close> and
  \<open>expires_at\<close> are also columns of its \<open>RETURNS TABLE\<close>, so the statement is
  rejected as ambiguous before it runs. Every call ends in \<open>NotFound\<close>,
  \<open>NotAuthorized\<close> or that error, with nothing written. The owner of file 10 gets
  the error with the fresh token 0a0b0c0d0e0f as with the token 00ff00ff00ff that
  is already stored. (The function draws its token once and has no loop and no
  handler, so it could not retry either.)
\<close>

theorem create_share_link_never_succeeds:
  "(create_share_link uid now random_bytes random_uuid p_file_id p_expires_hours p_password
        p_download_limit db = (Inl NotFound, db)
      \<or> create_share_link uid now random_bytes random_uuid p_file_id p_expires_hours p_password
          p_download_limit db = (Inl NotAuthorized, db)
      \<or> create_share_link uid now random_bytes random_uuid p_file_id p_expires_hours p_password
          p_download_limit db = (Inl AmbiguousColumn, db))
    \<and> select_file (Some 10) (files issued_db) = Some (example_file 10 1 1000 (Some False))
    \<and> f_owner_id (example_file 10 1 1000 (Some False)) = 1
    \<and> encode_hex [10, 11, 12, 13, 14, 15] = ''0a0b0c0d0e0f''
    \<and> ''0a0b0c0d0e0f'' \<notin> set (map sl_token (share_links issued_db))
    \<and> call (create_share_link (Some 1) 100 [10, 11, 12, 13, 14, 15] 31 (Some 10)
               None None None) issued_db = (Inl AmbiguousColumn, issued_db)
    \<and> encode_hex [0, 255, 0, 255, 0, 255] \<in> set (map sl_token (share_links issued_db))
    \<and> call (create_share_link (Some 1) 100 [0, 255, 0, 255, 0, 255] 31 (Some 10)
               None None None) issued_db = (Inl AmbiguousColumn, issued_db)"
proof -
  have "create_share_link uid now random_bytes random_uuid p_file_id p_expires_hours
          p_password p_download_limit db = (Inl NotFound, db)
      \<or> create_share_link uid now random_bytes random_uuid p_file_id p_expires_hours
          p_password p_download_limit db = (Inl NotAuthorized, db)
      \<or> create_share_link uid now random_bytes random_uuid p_file_id p_expires_hours
          p_password p_download_limit db = (Inl AmbiguousColumn, db)"
    by (auto simp: create_share_link_def Let_def ambiguous_names split: option.splits)
  moreover
  have "select_file (Some 10) (files issued_db) = Some (example_file 10 1 1000 (Some False))"
    and "f_owner_id (example_file 10 1 1000 (Some False)) = 1"
    and "encode_hex [10, 11, 12, 13, 14, 15] = ''0a0b0c0d0e0f''"
    and "''0a0b0c0d0e0f'' \<notin> set (map sl_token (share_links issued_db))"
    and "call (create_share_link (Some 1) 100 [10, 11, 12, 13, 14, 15] 31 (Some 10)
                None None None) issued_db = (Inl AmbiguousColumn, issued_db)"
    and "encode_hex [0, 255, 0, 255, 0, 255] \<in> set (map sl_token (share_links issued_db))"
    and "call (create_share_link (Some 1) 100 [0, 255, 0, 255, 0, 255] 31 (Some 10)
                None None None) issued_db = (Inl AmbiguousColumn, issued_db)"
    by code_simp+
  ultimately show ?thesis by (intro conjI)
qed

section \<open>Listing files\<close>

lemma sql_or_Some: "sql_or (Some a) (Some b) = Some (a \<or> b)"
  by (cases a; cases b) simp_all

lemma sql_or_None_left: "sql_or None b = (if b = Some True then Some True else None)"
proof (cases b)
  case None
  then show ?thesis by simp
next
  case (Some x)
  then show ?thesis by (cases x) simp_all
qed

lemma sql_or_None_right: "sql_or a None = (if a = Some True then Some True else None)"
proof (cases a)
  case None
  then show ?thesis by simp
next
  case (Some x)
  then show ?thesis by (cases x) simp_all
qed

text \<open>The \<open>WHERE\<close> clause in two-valued logic, without and with a folder id.\<close>

lemma list_files_where_root:
  "holds (list_files_where uid None p_include_deleted r)
     = (Some (f_owner_id r) = uid \<and> f_folder_id r = None
        \<and> (p_include_deleted = Some True \<or> counted r))"
  by (cases uid; cases p_include_deleted; cases "f_folder_id r")
     (auto simp: list_files_where_def holds_def sql_eq_def is_null_def is_not_null_def
        sql_and_Some sql_and_None sql_or_Some sql_or_None_left sql_or_None_right)

lemma list_files_where_folder:
  "holds (list_files_where uid (Some d) p_include_deleted r)
     = (Some (f_owner_id r) = uid \<and> f_folder_id r = Some d
        \<and> (p_include_deleted = Some True \<or> counted r))"
  by (cases uid; cases p_include_deleted; cases "f_folder_id r")
     (auto simp: list_files_where_def holds_def sql_eq_def is_null_def is_not_null_def
        sql_and_Some sql_and_None sql_or_Some sql_or_None_left sql_or_None_right)

lemma list_files_names:
  "\<not> ambiguous list_files_vars files_columns
       [''owner_id'', ''uid'', ''p_folder_id'', ''folder_id'', ''p_include_deleted'',
        ''is_deleted'', ''created_at'', ''p_limit'', ''p_offset'']"
  by code_simp

text \<open>The order: a total preorder on the keys, and the sort puts the rows in it.\<close>

lemma created_at_desc_total: "created_at_desc a b \<or> created_at_desc b a"
  by (cases a; cases b) auto

lemma created_at_desc_trans:
  "created_at_desc a b \<Longrightarrow> created_at_desc b c \<Longrightarrow> created_at_desc a c"
  by (cases a; cases b; cases c) auto

lemma set_insert_by_created_at: "set (insert_by_created_at r xs) = insert r (set xs)"
  by (induction xs) auto

lemma sorted_insert_by_created_at:
  assumes "sorted_wrt (\<lambda>a b. created_at_desc (f_created_at a) (f_created_at b)) xs"
  shows "sorted_wrt (\<lambda>a b. created_at_desc (f_created_at a) (f_created_at b))
           (insert_by_created_at r xs)"
  using assms
proof (induction xs)
  case Nil
  then show ?case by simp
next
  case (Cons x xs)
  show ?case
  proof (cases "created_at_desc (f_created_at r) (f_created_at x)")
    case True
    with Cons.prems show ?thesis
      by (auto intro: created_at_desc_trans)
  next
    case False
    with created_at_desc_total [of "f_created_at r" "f_created_at x"]
    have "created_at_desc (f_created_at x) (f_created_at r)" by simp
    with False Cons show ?thesis
      by (auto simp: set_insert_by_created_at)
  qed
qed

lemma set_order_by_created_at_desc: "set (order_by_created_at_desc rows) = set rows"
  by (induction rows) (simp_all add: order_by_created_at_desc_def set_insert_by_created_at)

lemma sorted_order_by_created_at_desc:
  "sorted_wrt (\<lambda>a b. created_at_desc (f_created_at a) (f_created_at b))
     (order_by_created_at_desc rows)"
  by (induction rows)
     (simp_all add: order_by_created_at_desc_def sorted_insert_by_created_at)

lemma limit_offset_window:
  assumes "limit_offset p_limit p_offset rows = Inr rows'"
  shows "set rows' \<subseteq> set rows"
    and "sorted_wrt P rows \<Longrightarrow> sorted_wrt P rows'"
    and "p_limit = None \<Longrightarrow> p_offset = None \<Longrightarrow> rows' = rows"
proof -
  from assms have w: "rows' = drop (nat (coalesce p_offset 0)) rows
      \<or> (\<exists>n. rows' = take n (drop (nat (coalesce p_offset 0)) rows))"
    by (auto simp: limit_offset_def split: if_splits option.splits)
  then show "set rows' \<subseteq> set rows"
    by (auto dest: in_set_takeD in_set_dropD)
  show "sorted_wrt P rows'" if "sorted_wrt P rows"
    using w that by (auto intro: sorted_wrt_take sorted_wrt_drop)
  show "rows' = rows" if "p_limit = None" "p_offset = None"
    using assms that by (simp add: limit_offset_def coalesce_def)
qed

text \<open>
  Claim C10. Called with no folder id, \<open>list_files\<close> writes nothing and returns only
  rows of \<open>public.files\<close> that the caller owns, whose \<open>folder_id\<close> is NULL, and that are
  not soft-deleted unless \<open>p_include_deleted\<close> is true, so never a file that sits in a
  folder; the rows come by \<open>created_at\<close> descending; and with no limit and no offset
  they are all the rows of that kind.
\<close>

theorem list_files_root_only:
  assumes "list_files uid None p_limit p_offset p_include_deleted db = (Inr rows, db')"
  shows "db' = db
    \<and> (\<forall>r \<in> set rows. r \<in> set (files db) \<and> Some (f_owner_id r) = uid
          \<and> f_folder_id r = None \<and> (p_include_deleted = Some True \<or> counted r))
    \<and> sorted_wrt (\<lambda>a b. created_at_desc (f_created_at a) (f_created_at b)) rows
    \<and> (p_limit = None \<longrightarrow> p_offset = None \<longrightarrow>
         set rows = {r \<in> set (files db). Some (f_owner_id r) = uid \<and> f_folder_id r = None
                       \<and> (p_include_deleted = Some True \<or> counted r)})"
proof -
  let ?all = "order_by_created_at_desc
     (filter (\<lambda>r. holds (list_files_where uid None p_include_deleted r)) (files db))"
  from assms have win: "limit_offset p_limit p_offset ?all = Inr rows" and db': "db' = db"
    by (auto simp: list_files_def list_files_names split: sum.splits)
  have all: "set ?all = {r \<in> set (files db). Some (f_owner_id r) = uid \<and> f_folder_id r = None
                           \<and> (p_include_deleted = Some True \<or> counted r)}"
    by (auto simp: set_order_by_created_at_desc list_files_where_root)
  from limit_offset_window(1) [OF win] all
  have only: "\<forall>r \<in> set rows. r \<in> set (files db) \<and> Some (f_owner_id r) = uid
                \<and> f_folder_id r = None \<and> (p_include_deleted = Some True \<or> counted r)"
    by blast
  from limit_offset_window(2) [OF win] sorted_order_by_created_at_desc
  have ordered: "sorted_wrt (\<lambda>a b. created_at_desc (f_created_at a) (f_created_at b)) rows"
    by blast
  from limit_offset_window(3) [OF win] all
  have "p_limit = None \<longrightarrow> p_offset = None \<longrightarrow>
          set rows = {r \<in> set (files db). Some (f_owner_id r) = uid \<and> f_folder_id r = None
                        \<and> (p_include_deleted = Some True \<or> counted r)}"
    by simp
  with db' only ordered show ?thesis by (intro conjI)
qed

theorem list_files_root_only_witness:
  "list_files (Some 1) None (Some 50) (Some 0) (Some False) folders_db
      = (Inr [placed_file 14 1 None None 9, placed_file 10 1 None (Some False) 5], folders_db)
    \<and> list_all (\<lambda>r. r \<in> set (files folders_db) \<and> f_owner_id r = 1 \<and> f_folder_id r = None
                    \<and> counted r)
        [placed_file 14 1 None None 9, placed_file 10 1 None (Some False) 5]
    \<and> sorted_wrt (\<lambda>a b. created_at_desc (f_created_at a) (f_created_at b))
        [placed_file 14 1 None None 9, placed_file 10 1 None (Some False) 5]
    \<and> placed_file 11 1 (Some 7) (Some False) 6 \<in> set (files folders_db)"
proof -
  let ?rows = "[placed_file 14 1 None None 9, placed_file 10 1 None (Some False) 5]"
  have h: "list_files (Some 1) None (Some 50) (Some 0) (Some False) folders_db
             = (Inr ?rows, folders_db)"
    by code_simp
  have inside: "placed_file 11 1 (Some 7) (Some False) 6 \<in> set (files folders_db)"
    by code_simp
  from list_files_root_only [OF h]
  have "list_all (\<lambda>r. r \<in> set (files folders_db) \<and> f_owner_id r = 1 \<and> f_folder_id r = None
                    \<and> counted r) ?rows"
    and "sorted_wrt (\<lambda>a b. created_at_desc (f_created_at a) (f_created_at b)) ?rows"
    by (simp_all add: list_all_iff)
  with h inside show ?thesis by (intro conjI)
qed

end

